theory Spec2Isabelle
  imports Main "HOL-Library.AList" "HOL-Library.Monad_Syntax"
begin

section \<open>Data model of the connection handle (main.go)\<close>

text \<open>
  Go pointers are addresses into an explicit store. A handle (\<open>*gormDB\<close>), a condition
  set (\<open>*Search\<close>), a callback registry (\<open>*Callback\<close>), a dialect and a settings map
  (Go maps are references) each live in their own table of the store; a nil pointer is
  \<open>None\<close>. Handles are the ones built by \<open>Open\<close> and by the methods below, so their
  logger, dialect, parent and settings map are present; the condition set of a root handle
  and the registry of a clone are nil, as in the source.
\<close>

type_synonym addr = nat

text \<open>\<open>interface{}\<close> values handed through the API.\<close>

datatype val =
    VNil | VBool bool | VInt int | VStr string | VList "val list" | VMap "(string \<times> val) list"

text \<open>
  Errors are compared by identity in Go; \<open>Err n\<close> is the error value with identity \<open>n\<close>.
  \<open>Errors\<close> is the aggregate type (a slice of errors).
\<close>

datatype error =
    ErrRecordNotFound
  | ErrInvalidTransaction
  | ErrCantStartTransaction
  | ErrTxDone
  | Err nat
  | Errors "error list"

text \<open>
  The dynamic type of the \<open>SQLCommon\<close> held by a handle: a nil interface, a \<open>*sql.DB\<close>,
  a non-nil \<open>*sql.Tx\<close>, the nil \<open>*sql.Tx\<close>, or another implementation that has neither
  \<open>Begin\<close> nor \<open>Commit\<close>/\<open>Rollback\<close>.
\<close>

datatype conn = ConnNil | ConnDB nat | ConnTx nat | ConnNilTx | ConnOther nat

datatype kind = KWhere | KOr | KNot | KHaving | KJoins

record Search =
  sdb :: "addr option"
  conds :: "(kind \<times> val \<times> val list) list"
  initAttrs :: "(string \<times> val) list"
  assignAttrs :: "(string \<times> val) list"
  selects :: "(val \<times> val list) option"
  omits :: "string list"
  orders :: "val list"
  preload :: "(string \<times> val list) list"
  soffset :: val
  slimit :: val
  sgroup :: string
  tableName :: string
  raw :: bool
  Unscoped :: bool

record gormDB =
  dbValue :: val
  err :: "error option"
  rowsAffected :: int
  db :: conn
  blockGlobalUpdate :: bool
  logMode :: int
  logger :: nat
  search :: "addr option"
  dbValues :: addr
  parent :: addr
  callbacks :: "addr option"
  dialect :: addr
  singularTable :: bool

record Dialect =
  dname :: string
  ddb :: conn

datatype chain = Creates | Updates | Deletes | Queries | RowQueries

record Callback =
  creates :: "string list"
  updates :: "string list"
  deletes :: "string list"
  queries :: "string list"
  rowQueries :: "string list"

datatype schema_op =
    CreateTableOp
  | DropTableOp
  | AutoMigrateOp
  | AddIndexOp bool string "string list"
  | RemoveIndexOp string
  | AddForeignKeyOp string string string string
  | RemoveForeignKeyOp string string

text \<open>
  A scope (\<open>&Scope{db: dbClone, Search: ..., Value: value}\<close>) with its instance-local
  settings. It lives for one operation, so it is passed by value.
\<close>

record Scope =
  scdb :: addr
  scSearch :: addr
  scValue :: val
  scInstance :: "(string \<times> val) list"

text \<open>
  What leaves the handle: a line given to the logger, a call on the underlying
  transaction, a run of a callback chain on a scope, and the direct scope operations.
  A scope is recorded together with the content of its condition set at that moment.
\<close>

datatype event =
    Print nat error
  | DbBegin nat
  | TxCommit nat
  | TxRollback nat
  | CallCallbacks chain "string list" Scope Search
  | Initialize Scope Search
  | UpdatedAttrsWithValues Scope "(string \<times> val) list"
  | SchemaOp schema_op Scope Search

record heap =
  dbs :: "addr \<Rightarrow> gormDB"
  searches :: "addr \<Rightarrow> Search"
  registries :: "addr \<Rightarrow> Callback"
  dialects :: "addr \<Rightarrow> Dialect"
  settings :: "addr \<Rightarrow> (string \<rightharpoonup> val)"
  fresh :: addr
  txDone :: "nat list"
  trace :: "event list"

section \<open>Error accumulation\<close>

text \<open>\<open>GetErrors\<close>: the aggregate's members, the single error, or nothing.\<close>

definition GetErrors :: "gormDB \<Rightarrow> error list" where
  "GetErrors s =
     (case err s of
        Some (Errors errs) \<Rightarrow> errs
      | Some e \<Rightarrow> [e]
      | None \<Rightarrow> [])"

text \<open>
  Modelled from the spec: \<open>Errors.Add\<close> (errors.go is not among the sources). The
  spec: "Multiple distinct errors coalesce into an aggregate error value; duplicate
  identical errors are not re-added."
\<close>

definition Errors_Add :: "error list \<Rightarrow> error \<Rightarrow> error list" where
  "Errors_Add errs e = (if e \<in> set errs then errs else errs @ [e])"

definition SetError :: "addr \<Rightarrow> error option \<Rightarrow> heap \<Rightarrow> heap" where
  "SetError a e \<sigma> = \<sigma>\<lparr>dbs := (dbs \<sigma>)(a := (dbs \<sigma> a)\<lparr>err := e\<rparr>)\<rparr>"

text \<open>\<open>Print\<close> hands the line to the handle's logger.\<close>

definition Print_db :: "addr \<Rightarrow> error \<Rightarrow> heap \<Rightarrow> heap" where
  "Print_db a e \<sigma> = \<sigma>\<lparr>trace := trace \<sigma> @ [Print (logger (dbs \<sigma> a)) e]\<rparr>"

definition Log :: "addr \<Rightarrow> error \<Rightarrow> heap \<Rightarrow> heap" where
  "Log a e \<sigma> = (if logMode (dbs \<sigma> a) = 2 then Print_db a e \<sigma> else \<sigma>)"

text \<open>
  \<open>AddError\<close>. In log mode 0 the line is printed by a goroutine; the model records the
  line, not when it appears.
\<close>

definition AddError :: "addr \<Rightarrow> error option \<Rightarrow> heap \<Rightarrow> error option \<times> heap" where
  "AddError a e \<sigma> =
     (case e of
        None \<Rightarrow> (None, \<sigma>)
      | Some x \<Rightarrow>
          if x \<noteq> ErrRecordNotFound then
            (let \<sigma>1 = (if logMode (dbs \<sigma> a) = 0 then Print_db a x \<sigma> else Log a x \<sigma>);
                 errors = Errors_Add (GetErrors (dbs \<sigma>1 a)) x;
                 x' = (if length errors > 1 then Errors errors else x)
             in (Some x', SetError a (Some x') \<sigma>1))
          else (Some x, SetError a (Some x) \<sigma>))"

text \<open>\<open>RecordNotFound\<close>: the loop over \<open>GetErrors\<close>, returning at the first sentinel.\<close>

fun hasRecordNotFound :: "error list \<Rightarrow> bool" where
  "hasRecordNotFound [] = False"
| "hasRecordNotFound (e # es) = (if e = ErrRecordNotFound then True else hasRecordNotFound es)"

definition RecordNotFound :: "gormDB \<Rightarrow> bool" where
  "RecordNotFound s = hasRecordNotFound (GetErrors s)"

section \<open>Clone\<close>

text \<open>
  Modelled from the spec: \<open>newDialect\<close> (dialect.go is not among the sources). The
  spec has a dialect bound to a connection ("\<open>Begin\<close> ... rebinds the dialect to the
  transaction"); \<open>newDialect\<close> is given a name and a connection and builds the dialect
  of that name bound to that connection.
\<close>

definition newDialect :: "string \<Rightarrow> conn \<Rightarrow> heap \<Rightarrow> addr \<times> heap" where
  "newDialect name c \<sigma> =
     (fresh \<sigma>,
      \<sigma>\<lparr>dialects := (dialects \<sigma>)(fresh \<sigma> := \<lparr>dname = name, ddb = c\<rparr>),
        fresh := Suc (fresh \<sigma>)\<rparr>)"

text \<open>The literal \<open>&Search{limit: -1, offset: -1}\<close>: every other field is Go's zero value.\<close>

definition emptySearch :: Search where
  "emptySearch =
     \<lparr>sdb = None, conds = [], initAttrs = [], assignAttrs = [], selects = None, omits = [],
      orders = [], preload = [], soffset = VInt (- 1), slimit = VInt (- 1), sgroup = [],
      tableName = [], raw = False, Unscoped = False\<rparr>"

text \<open>
  Modelled from the spec: \<open>Search.clone\<close> (search.go is not among the sources). The
  spec: "cloning a ConditionSet produces structurally independent condition storage
  (mutating the clone never affects the original)". The copy is a new object with the
  fields of the original.
\<close>

definition Search_clone :: "addr \<Rightarrow> heap \<Rightarrow> addr \<times> heap" where
  "Search_clone p \<sigma> =
     (fresh \<sigma>,
      \<sigma>\<lparr>searches := (searches \<sigma>)(fresh \<sigma> := searches \<sigma> p), fresh := Suc (fresh \<sigma>)\<rparr>)"

definition new_Search :: "Search \<Rightarrow> heap \<Rightarrow> addr \<times> heap" where
  "new_Search v \<sigma> =
     (fresh \<sigma>, \<sigma>\<lparr>searches := (searches \<sigma>)(fresh \<sigma> := v), fresh := Suc (fresh \<sigma>)\<rparr>)"

text \<open>
  \<open>Clone\<close>. The struct literal names nine fields, so \<open>rowsAffected\<close>, \<open>callbacks\<close> and
  \<open>singularTable\<close> get Go's zero values. The dialect is built by \<open>newDialect\<close>, the
  settings are copied entry by entry into a new map, the condition set is a new one or a
  clone, and its back pointer is set to the new handle.
\<close>

definition Clone :: "addr \<Rightarrow> heap \<Rightarrow> addr \<times> heap" where
  "Clone a \<sigma> =
     (let s = dbs \<sigma> a;
          (d, \<sigma>1) = newDialect (dname (dialects \<sigma> (dialect s))) (db s) \<sigma>;
          m = fresh \<sigma>1;
          \<sigma>2 = \<sigma>1\<lparr>settings := (settings \<sigma>1)(m := settings \<sigma>1 (dbValues s)),
                  fresh := Suc m\<rparr>;
          (p, \<sigma>3) = (case search s of
                        None \<Rightarrow> new_Search emptySearch \<sigma>2
                      | Some q \<Rightarrow> Search_clone q \<sigma>2);
          c = fresh \<sigma>3;
          new = \<lparr>dbValue = dbValue s, err = err s, rowsAffected = 0, db = db s,
                 blockGlobalUpdate = blockGlobalUpdate s, logMode = logMode s,
                 logger = logger s, search = Some p, dbValues = m, parent = parent s,
                 callbacks = None, dialect = d, singularTable = False\<rparr>
      in (c, \<sigma>3\<lparr>dbs := (dbs \<sigma>3)(c := new),
                searches := (searches \<sigma>3)(p := (searches \<sigma>3 p)\<lparr>sdb := Some c\<rparr>),
                fresh := Suc c\<rparr>))"

section \<open>Settings\<close>

text \<open>\<open>InstantSet\<close> writes into the map the handle points to and returns the handle.\<close>

definition InstantSet :: "addr \<Rightarrow> string \<Rightarrow> val \<Rightarrow> heap \<Rightarrow> addr \<times> heap" where
  "InstantSet a name v \<sigma> =
     (let m = dbValues (dbs \<sigma> a)
      in (a, \<sigma>\<lparr>settings := (settings \<sigma>)(m := (settings \<sigma> m)(name \<mapsto> v))\<rparr>))"

definition Set_db :: "addr \<Rightarrow> string \<Rightarrow> val \<Rightarrow> heap \<Rightarrow> addr \<times> heap" where
  "Set_db a name v \<sigma> = (case Clone a \<sigma> of (c, \<sigma>1) \<Rightarrow> InstantSet c name v \<sigma>1)"

text \<open>\<open>Get\<close>: the comma-ok map read; a missing key gives the zero value and \<open>False\<close>.\<close>

definition Get :: "addr \<Rightarrow> string \<Rightarrow> heap \<Rightarrow> val \<times> bool" where
  "Get a name \<sigma> =
     (case settings \<sigma> (dbValues (dbs \<sigma> a)) name of
        Some v \<Rightarrow> (v, True)
      | None \<Rightarrow> (VNil, False))"

definition SetValue :: "addr \<Rightarrow> val \<Rightarrow> heap \<Rightarrow> heap" where
  "SetValue a v \<sigma> = \<sigma>\<lparr>dbs := (dbs \<sigma>)(a := (dbs \<sigma> a)\<lparr>dbValue := v\<rparr>)\<rparr>"

definition SetSearch :: "addr \<Rightarrow> addr option \<Rightarrow> heap \<Rightarrow> heap" where
  "SetSearch a p \<sigma> = \<sigma>\<lparr>dbs := (dbs \<sigma>)(a := (dbs \<sigma> a)\<lparr>search := p\<rparr>)\<rparr>"

definition SetRowsAffected :: "addr \<Rightarrow> int \<Rightarrow> heap \<Rightarrow> heap" where
  "SetRowsAffected a n \<sigma> = \<sigma>\<lparr>dbs := (dbs \<sigma>)(a := (dbs \<sigma> a)\<lparr>rowsAffected := n\<rparr>)\<rparr>"

definition SetCallbacks :: "addr \<Rightarrow> addr option \<Rightarrow> heap \<Rightarrow> heap" where
  "SetCallbacks a r \<sigma> = \<sigma>\<lparr>dbs := (dbs \<sigma>)(a := (dbs \<sigma> a)\<lparr>callbacks := r\<rparr>)\<rparr>"

section \<open>The condition set's own methods\<close>

text \<open>
  Modelled from the spec: the methods of \<open>Search\<close> (search.go is not among the
  sources). The spec: "Each accumulating method appends a tagged fragment"; "\<open>Order\<close>
  with \<open>reorder=true\<close> replaces all previously accumulated order fragments; otherwise it
  appends"; "\<open>Limit\<close>/\<open>Offset\<close> simply overwrite the scalar"; "\<open>Attrs\<close>/\<open>Assign\<close> merge
  their map/struct arguments into the respective stored map, later keys overwriting
  earlier ones on conflict". Each works on the receiver in place and returns it.
\<close>

definition Search_Where :: "val \<Rightarrow> val list \<Rightarrow> Search \<Rightarrow> Search" where
  "Search_Where q args s = s\<lparr>conds := conds s @ [(KWhere, q, args)]\<rparr>"

definition Search_Or :: "val \<Rightarrow> val list \<Rightarrow> Search \<Rightarrow> Search" where
  "Search_Or q args s = s\<lparr>conds := conds s @ [(KOr, q, args)]\<rparr>"

definition Search_Not :: "val \<Rightarrow> val list \<Rightarrow> Search \<Rightarrow> Search" where
  "Search_Not q args s = s\<lparr>conds := conds s @ [(KNot, q, args)]\<rparr>"

definition Search_Having :: "val \<Rightarrow> val list \<Rightarrow> Search \<Rightarrow> Search" where
  "Search_Having q args s = s\<lparr>conds := conds s @ [(KHaving, q, args)]\<rparr>"

definition Search_Joins :: "string \<Rightarrow> val list \<Rightarrow> Search \<Rightarrow> Search" where
  "Search_Joins q args s = s\<lparr>conds := conds s @ [(KJoins, VStr q, args)]\<rparr>"

definition Search_Limit :: "val \<Rightarrow> Search \<Rightarrow> Search" where
  "Search_Limit v s = s\<lparr>slimit := v\<rparr>"

definition Search_Offset :: "val \<Rightarrow> Search \<Rightarrow> Search" where
  "Search_Offset v s = s\<lparr>soffset := v\<rparr>"

definition Search_Order :: "val \<Rightarrow> bool list \<Rightarrow> Search \<Rightarrow> Search" where
  "Search_Order v reorder s =
     (case reorder of
        True # _ \<Rightarrow> s\<lparr>orders := [v]\<rparr>
      | _ \<Rightarrow> s\<lparr>orders := orders s @ [v]\<rparr>)"

definition Search_Select :: "val \<Rightarrow> val list \<Rightarrow> Search \<Rightarrow> Search" where
  "Search_Select q args s = s\<lparr>selects := Some (q, args)\<rparr>"

definition Search_Omit :: "string list \<Rightarrow> Search \<Rightarrow> Search" where
  "Search_Omit columns s = s\<lparr>omits := columns\<rparr>"

definition Search_Group :: "string \<Rightarrow> Search \<Rightarrow> Search" where
  "Search_Group q s = s\<lparr>sgroup := q\<rparr>"

definition Search_Preload :: "string \<Rightarrow> val list \<Rightarrow> Search \<Rightarrow> Search" where
  "Search_Preload column conditions s = s\<lparr>preload := preload s @ [(column, conditions)]\<rparr>"

definition merge_attrs :: "(string \<times> val) list \<Rightarrow> (string \<times> val) list \<Rightarrow> (string \<times> val) list" where
  "merge_attrs stored attrs = fold (\<lambda>(k, v) acc. AList.update k v acc) attrs stored"

definition Search_Attrs :: "(string \<times> val) list \<Rightarrow> Search \<Rightarrow> Search" where
  "Search_Attrs attrs s = s\<lparr>initAttrs := merge_attrs (initAttrs s) attrs\<rparr>"

definition Search_Assign :: "(string \<times> val) list \<Rightarrow> Search \<Rightarrow> Search" where
  "Search_Assign attrs s = s\<lparr>assignAttrs := merge_attrs (assignAttrs s) attrs\<rparr>"

definition Search_unscoped :: "Search \<Rightarrow> Search" where
  "Search_unscoped s = s\<lparr>Unscoped := True\<rparr>"

definition Search_Table :: "string \<Rightarrow> Search \<Rightarrow> Search" where
  "Search_Table name s = s\<lparr>tableName := name\<rparr>"

definition Search_Raw :: "bool \<Rightarrow> Search \<Rightarrow> Search" where
  "Search_Raw b s = s\<lparr>raw := b\<rparr>"

section \<open>Condition-building calls\<close>

text \<open>
  \<open>s.Clone().Search().M(...).db\<close>: clone, follow the clone's \<open>search\<close> pointer (a nil
  one would be a nil dereference: \<open>None\<close>), run the method on that object in place, and
  return the object's \<open>db\<close> back pointer, which may be nil.
\<close>

definition on_clone_search ::
  "(Search \<Rightarrow> Search) \<Rightarrow> addr \<Rightarrow> heap \<Rightarrow> (addr option \<times> heap) option" where
  "on_clone_search m a \<sigma> =
     (case Clone a \<sigma> of (c, \<sigma>1) \<Rightarrow>
        (case search (dbs \<sigma>1 c) of
           None \<Rightarrow> None
         | Some p \<Rightarrow>
             (let \<sigma>2 = \<sigma>1\<lparr>searches := (searches \<sigma>1)(p := m (searches \<sigma>1 p))\<rparr>
              in Some (sdb (searches \<sigma>2 p), \<sigma>2))))"

definition Where :: "addr \<Rightarrow> val \<Rightarrow> val list \<Rightarrow> heap \<Rightarrow> (addr option \<times> heap) option" where
  "Where a q args = on_clone_search (Search_Where q args) a"

definition Or_db :: "addr \<Rightarrow> val \<Rightarrow> val list \<Rightarrow> heap \<Rightarrow> (addr option \<times> heap) option" where
  "Or_db a q args = on_clone_search (Search_Or q args) a"

definition Not_db :: "addr \<Rightarrow> val \<Rightarrow> val list \<Rightarrow> heap \<Rightarrow> (addr option \<times> heap) option" where
  "Not_db a q args = on_clone_search (Search_Not q args) a"

definition Limit :: "addr \<Rightarrow> val \<Rightarrow> heap \<Rightarrow> (addr option \<times> heap) option" where
  "Limit a v = on_clone_search (Search_Limit v) a"

definition Offset :: "addr \<Rightarrow> val \<Rightarrow> heap \<Rightarrow> (addr option \<times> heap) option" where
  "Offset a v = on_clone_search (Search_Offset v) a"

definition Order :: "addr \<Rightarrow> val \<Rightarrow> bool list \<Rightarrow> heap \<Rightarrow> (addr option \<times> heap) option" where
  "Order a v reorder = on_clone_search (Search_Order v reorder) a"

definition Select :: "addr \<Rightarrow> val \<Rightarrow> val list \<Rightarrow> heap \<Rightarrow> (addr option \<times> heap) option" where
  "Select a q args = on_clone_search (Search_Select q args) a"

definition Omit :: "addr \<Rightarrow> string list \<Rightarrow> heap \<Rightarrow> (addr option \<times> heap) option" where
  "Omit a columns = on_clone_search (Search_Omit columns) a"

definition Group :: "addr \<Rightarrow> string \<Rightarrow> heap \<Rightarrow> (addr option \<times> heap) option" where
  "Group a q = on_clone_search (Search_Group q) a"

definition Having :: "addr \<Rightarrow> val \<Rightarrow> val list \<Rightarrow> heap \<Rightarrow> (addr option \<times> heap) option" where
  "Having a q args = on_clone_search (Search_Having q args) a"

definition Joins :: "addr \<Rightarrow> string \<Rightarrow> val list \<Rightarrow> heap \<Rightarrow> (addr option \<times> heap) option" where
  "Joins a q args = on_clone_search (Search_Joins q args) a"

definition Preload :: "addr \<Rightarrow> string \<Rightarrow> val list \<Rightarrow> heap \<Rightarrow> (addr option \<times> heap) option" where
  "Preload a column conditions = on_clone_search (Search_Preload column conditions) a"

definition Attrs :: "addr \<Rightarrow> (string \<times> val) list \<Rightarrow> heap \<Rightarrow> (addr option \<times> heap) option" where
  "Attrs a attrs = on_clone_search (Search_Attrs attrs) a"

definition Assign :: "addr \<Rightarrow> (string \<times> val) list \<Rightarrow> heap \<Rightarrow> (addr option \<times> heap) option" where
  "Assign a attrs = on_clone_search (Search_Assign attrs) a"

definition Unscoped_db :: "addr \<Rightarrow> heap \<Rightarrow> (addr option \<times> heap) option" where
  "Unscoped_db a = on_clone_search Search_unscoped a"

text \<open>\<open>Raw\<close>: \<open>s.Clone().Search().Raw(true).Where(sql, values...).db\<close>.\<close>

definition Raw :: "addr \<Rightarrow> string \<Rightarrow> val list \<Rightarrow> heap \<Rightarrow> (addr option \<times> heap) option" where
  "Raw a sql vs = on_clone_search (\<lambda>s. Search_Where (VStr sql) vs (Search_Raw True s)) a"

text \<open>\<open>Model\<close> and \<open>Table\<close> return the clone itself.\<close>

definition Model :: "addr \<Rightarrow> val \<Rightarrow> heap \<Rightarrow> (addr option \<times> heap) option" where
  "Model a v \<sigma> = (case Clone a \<sigma> of (c, \<sigma>1) \<Rightarrow> Some (Some c, SetValue c v \<sigma>1))"

definition Table :: "addr \<Rightarrow> string \<Rightarrow> heap \<Rightarrow> (addr option \<times> heap) option" where
  "Table a name \<sigma> =
     (case Clone a \<sigma> of (c, \<sigma>1) \<Rightarrow>
        (case search (dbs \<sigma>1 c) of
           None \<Rightarrow> None
         | Some p \<Rightarrow>
             (let \<sigma>2 = \<sigma>1\<lparr>searches := (searches \<sigma>1)(p := Search_Table name (searches \<sigma>1 p))\<rparr>
              in Some (Some c, SetValue c VNil \<sigma>2))))"

text \<open>The condition-building calls as data, so that a statement can range over all of them.\<close>

datatype call =
    CWhere val "val list"
  | COr val "val list"
  | CNot val "val list"
  | CLimit val
  | COffset val
  | COrder val "bool list"
  | CSelect val "val list"
  | COmit "string list"
  | CGroup string
  | CHaving val "val list"
  | CJoins string "val list"
  | CPreload string "val list"
  | CAttrs "(string \<times> val) list"
  | CAssign "(string \<times> val) list"
  | CUnscoped
  | CTable string
  | CRaw string "val list"
  | CModel val

fun do_call :: "call \<Rightarrow> addr \<Rightarrow> heap \<Rightarrow> (addr option \<times> heap) option" where
  "do_call (CWhere q args) a = Where a q args"
| "do_call (COr q args) a = Or_db a q args"
| "do_call (CNot q args) a = Not_db a q args"
| "do_call (CLimit v) a = Limit a v"
| "do_call (COffset v) a = Offset a v"
| "do_call (COrder v reorder) a = Order a v reorder"
| "do_call (CSelect q args) a = Select a q args"
| "do_call (COmit columns) a = Omit a columns"
| "do_call (CGroup q) a = Group a q"
| "do_call (CHaving q args) a = Having a q args"
| "do_call (CJoins q args) a = Joins a q args"
| "do_call (CPreload column conditions) a = Preload a column conditions"
| "do_call (CAttrs attrs) a = Attrs a attrs"
| "do_call (CAssign attrs) a = Assign a attrs"
| "do_call CUnscoped a = Unscoped_db a"
| "do_call (CTable name) a = Table a name"
| "do_call (CRaw sql vs) a = Raw a sql vs"
| "do_call (CModel v) a = Model a v"

text \<open>What the call does to the condition set, and to the value, of the clone.\<close>

fun call_search :: "call \<Rightarrow> Search \<Rightarrow> Search" where
  "call_search (CWhere q args) = Search_Where q args"
| "call_search (COr q args) = Search_Or q args"
| "call_search (CNot q args) = Search_Not q args"
| "call_search (CLimit v) = Search_Limit v"
| "call_search (COffset v) = Search_Offset v"
| "call_search (COrder v reorder) = Search_Order v reorder"
| "call_search (CSelect q args) = Search_Select q args"
| "call_search (COmit columns) = Search_Omit columns"
| "call_search (CGroup q) = Search_Group q"
| "call_search (CHaving q args) = Search_Having q args"
| "call_search (CJoins q args) = Search_Joins q args"
| "call_search (CPreload column conditions) = Search_Preload column conditions"
| "call_search (CAttrs attrs) = Search_Attrs attrs"
| "call_search (CAssign attrs) = Search_Assign attrs"
| "call_search CUnscoped = Search_unscoped"
| "call_search (CTable name) = Search_Table name"
| "call_search (CRaw sql vs) = (\<lambda>s. Search_Where (VStr sql) vs (Search_Raw True s))"
| "call_search (CModel v) = (\<lambda>s. s)"

fun call_value :: "call \<Rightarrow> val \<Rightarrow> val" where
  "call_value (CTable name) v = VNil"
| "call_value (CModel w) v = w"
| "call_value _ v = v"

section \<open>Transactions\<close>

text \<open>
  \<open>(*sql.Tx).Commit\<close> and \<open>Rollback\<close> of the standard library: a call on the underlying
  transaction; a transaction that was already committed or rolled back answers
  \<open>sql.ErrTxDone\<close>, otherwise it becomes finished.
\<close>

definition tx_Commit :: "nat \<Rightarrow> heap \<Rightarrow> error option \<times> heap" where
  "tx_Commit t \<sigma> =
     (let \<sigma>1 = \<sigma>\<lparr>trace := trace \<sigma> @ [TxCommit t]\<rparr>
      in if t \<in> set (txDone \<sigma>) then (Some ErrTxDone, \<sigma>1)
         else (None, \<sigma>1\<lparr>txDone := t # txDone \<sigma>\<rparr>))"

definition tx_Rollback :: "nat \<Rightarrow> heap \<Rightarrow> error option \<times> heap" where
  "tx_Rollback t \<sigma> =
     (let \<sigma>1 = \<sigma>\<lparr>trace := trace \<sigma> @ [TxRollback t]\<rparr>
      in if t \<in> set (txDone \<sigma>) then (Some ErrTxDone, \<sigma>1)
         else (None, \<sigma>1\<lparr>txDone := t # txDone \<sigma>\<rparr>))"

text \<open>\<open>s.db.(sqlTx)\<close>: which dynamic types have \<open>Commit\<close> and \<open>Rollback\<close>.\<close>

fun is_sqlTx :: "conn \<Rightarrow> bool" where
  "is_sqlTx (ConnTx t) = True"
| "is_sqlTx ConnNilTx = True"
| "is_sqlTx _ = False"

text \<open>
  \<open>Commit\<close>: \<open>ok && db != nil && db != emptySQLTx\<close>, then the call on the transaction
  (only a non-nil \<open>*sql.Tx\<close> passes the test); otherwise the invalid-transaction error.
  Both branches go through \<open>AddError\<close> and return the receiver.
\<close>

definition Commit :: "addr \<Rightarrow> heap \<Rightarrow> addr \<times> heap" where
  "Commit a \<sigma> =
     (let c = db (dbs \<sigma> a)
      in if is_sqlTx c \<and> c \<noteq> ConnNil \<and> c \<noteq> ConnNilTx then
           (case c of
              ConnTx t \<Rightarrow> (case tx_Commit t \<sigma> of (e, \<sigma>1) \<Rightarrow> (a, snd (AddError a e \<sigma>1)))
            | _ \<Rightarrow> (a, \<sigma>))
         else (a, snd (AddError a (Some ErrInvalidTransaction) \<sigma>)))"

definition Rollback :: "addr \<Rightarrow> heap \<Rightarrow> addr \<times> heap" where
  "Rollback a \<sigma> =
     (let c = db (dbs \<sigma> a)
      in if is_sqlTx c \<and> c \<noteq> ConnNil \<and> c \<noteq> ConnNilTx then
           (case c of
              ConnTx t \<Rightarrow> (case tx_Rollback t \<sigma> of (e, \<sigma>1) \<Rightarrow> (a, snd (AddError a e \<sigma>1)))
            | _ \<Rightarrow> (a, \<sigma>))
         else (a, snd (AddError a (Some ErrInvalidTransaction) \<sigma>)))"

text \<open>
  \<open>Begin\<close>: clone; a connection with a \<open>Begin\<close> method (\<open>*sql.DB\<close>) is asked for a
  transaction, the clone's connection becomes what it answered (the nil \<open>*sql.Tx\<close> when
  it failed), the clone's dialect is rebound and the answer's error added. The answer of
  the driver is the parameter \<open>r\<close>.
\<close>

definition Begin :: "error option \<Rightarrow> addr \<Rightarrow> heap \<Rightarrow> addr \<times> heap" where
  "Begin r a \<sigma> =
     (case Clone a \<sigma> of (c, \<sigma>1) \<Rightarrow>
        (case db (dbs \<sigma>1 c) of
           ConnDB n \<Rightarrow>
             (let t = fresh \<sigma>1;
                  tx = (case r of None \<Rightarrow> ConnTx t | Some e \<Rightarrow> ConnNilTx);
                  \<sigma>2 = \<sigma>1\<lparr>trace := trace \<sigma>1 @ [DbBegin n], fresh := Suc t\<rparr>;
                  \<sigma>3 = \<sigma>2\<lparr>dbs := (dbs \<sigma>2)(c := (dbs \<sigma>2 c)\<lparr>db := tx\<rparr>)\<rparr>;
                  d = dialect (dbs \<sigma>3 c);
                  \<sigma>4 = \<sigma>3\<lparr>dialects := (dialects \<sigma>3)(d := (dialects \<sigma>3 d)\<lparr>ddb := tx\<rparr>)\<rparr>
              in (c, snd (AddError c r \<sigma>4)))
         | _ \<Rightarrow> (c, snd (AddError c (Some ErrCantStartTransaction) \<sigma>1))))"

section \<open>The callback registry\<close>

text \<open>
  Modelled from the spec: \<open>Callback.clone\<close> (callback.go is not among the sources).
  The spec calls it a copy ("copy-on-write via \<open>Callback()\<close>"): a new registry object
  with the five chains of the original.
\<close>

definition Callback_clone :: "addr \<Rightarrow> heap \<Rightarrow> addr \<times> heap" where
  "Callback_clone r \<sigma> =
     (fresh \<sigma>,
      \<sigma>\<lparr>registries := (registries \<sigma>)(fresh \<sigma> := registries \<sigma> r), fresh := Suc (fresh \<sigma>)\<rparr>)"

text \<open>
  \<open>Callback()\<close>: \<open>s.parent.SetCallbacks(s.parent.Callbacks().clone())\<close>, then
  \<open>return s.parent.Callbacks()\<close>. A parent without a registry is a nil dereference.
\<close>

definition Callback_db :: "addr \<Rightarrow> heap \<Rightarrow> (addr option \<times> heap) option" where
  "Callback_db a \<sigma> =
     (let p = parent (dbs \<sigma> a)
      in case callbacks (dbs \<sigma> p) of
           None \<Rightarrow> None
         | Some r \<Rightarrow>
             (case Callback_clone r \<sigma> of (r', \<sigma>1) \<Rightarrow>
                (let \<sigma>2 = SetCallbacks p (Some r') \<sigma>1
                 in Some (callbacks (dbs \<sigma>2 (parent (dbs \<sigma>2 a))), \<sigma>2))))"

text \<open>A change made through a registry pointer (\<open>Register\<close>, \<open>Remove\<close>, ...) is in place.\<close>

definition mutate_registry :: "addr \<Rightarrow> (Callback \<Rightarrow> Callback) \<Rightarrow> heap \<Rightarrow> heap" where
  "mutate_registry r f \<sigma> = \<sigma>\<lparr>registries := (registries \<sigma>)(r := f (registries \<sigma> r))\<rparr>"

fun chain_of :: "chain \<Rightarrow> Callback \<Rightarrow> string list" where
  "chain_of Creates r = creates r"
| "chain_of Updates r = updates r"
| "chain_of Deletes r = deletes r"
| "chain_of Queries r = queries r"
| "chain_of RowQueries r = rowQueries r"

text \<open>
  \<open>s.parent.Callbacks().queries\<close> and its siblings: the chain an operation through
  handle \<open>a\<close> runs. A parent without a registry is a nil dereference.
\<close>

definition parent_chain :: "chain \<Rightarrow> addr \<Rightarrow> heap \<Rightarrow> string list option" where
  "parent_chain k a \<sigma> =
     (case callbacks (dbs \<sigma> (parent (dbs \<sigma> a))) of
        None \<Rightarrow> None
      | Some r \<Rightarrow> Some (chain_of k (registries \<sigma> r)))"

section \<open>Scopes and the collaborators behind them\<close>

text \<open>
  What the model cannot compute is a parameter: whether a value's primary key is blank
  (\<open>Scope.PrimaryKeyZero\<close>, from the struct metadata), what a callback step reports
  (the error it adds and the rows-affected count it stores, if any), and the errors a
  schema operation adds. Each may depend on everything that happened before.
\<close>

record env =
  PrimaryKeyZero :: "val \<Rightarrow> bool"
  step :: "chain \<Rightarrow> string \<Rightarrow> event list \<Rightarrow> Scope \<Rightarrow> error option \<times> int option"
  schema_errors :: "schema_op \<Rightarrow> event list \<Rightarrow> Scope \<Rightarrow> error list"

text \<open>\<open>NewScope\<close>: clone, set the value, and a scope on a clone of the clone's condition set.\<close>

definition NewScope :: "addr \<Rightarrow> val \<Rightarrow> heap \<Rightarrow> (Scope \<times> heap) option" where
  "NewScope a v \<sigma> =
     (case Clone a \<sigma> of (c, \<sigma>1) \<Rightarrow>
        (let \<sigma>2 = SetValue c v \<sigma>1
         in case search (dbs \<sigma>2 c) of
              None \<Rightarrow> None
            | Some p \<Rightarrow>
                (case Search_clone p \<sigma>2 of (q, \<sigma>3) \<Rightarrow>
                   Some (\<lparr>scdb = c, scSearch = q, scValue = v, scInstance = []\<rparr>, \<sigma>3))))"

text \<open>
  Modelled from the spec: the methods of \<open>Scope\<close> (scope.go is not among the sources).
  The spec: a scope owns "an instance-local settings map (distinct from the handle's
  settings)"; the chain's "steps run strictly in order against one Scope; any step may
  set the Scope/handle's error", "errors are accumulated"; schema operations are "direct
  ... non-pipelined" operations on the scope. \<open>Set\<close> writes the handle's settings,
  \<open>InstanceSet\<close> the instance-local ones, \<open>inlineCondition\<close> adds the inline arguments
  as one where-fragment, and \<open>initialize\<close>, \<open>updatedAttrsWithValues\<close> and the schema
  operations are recorded with the scope they run on.
\<close>

definition Scope_Set :: "string \<Rightarrow> val \<Rightarrow> Scope \<Rightarrow> heap \<Rightarrow> heap" where
  "Scope_Set name v sc \<sigma> = snd (InstantSet (scdb sc) name v \<sigma>)"

definition InstanceSet :: "string \<Rightarrow> val \<Rightarrow> Scope \<Rightarrow> Scope" where
  "InstanceSet name v sc = sc\<lparr>scInstance := AList.update name v (scInstance sc)\<rparr>"

definition on_scope_search :: "(Search \<Rightarrow> Search) \<Rightarrow> Scope \<Rightarrow> heap \<Rightarrow> heap" where
  "on_scope_search m sc \<sigma> =
     \<sigma>\<lparr>searches := (searches \<sigma>)(scSearch sc := m (searches \<sigma> (scSearch sc)))\<rparr>"

definition inlineCondition :: "val list \<Rightarrow> Scope \<Rightarrow> heap \<Rightarrow> heap" where
  "inlineCondition ws sc \<sigma> =
     (case ws of
        [] \<Rightarrow> \<sigma>
      | w # rest \<Rightarrow> on_scope_search (Search_Where w rest) sc \<sigma>)"

definition emit :: "event \<Rightarrow> heap \<Rightarrow> heap" where
  "emit e \<sigma> = \<sigma>\<lparr>trace := trace \<sigma> @ [e]\<rparr>"

definition initialize :: "Scope \<Rightarrow> heap \<Rightarrow> heap" where
  "initialize sc \<sigma> = emit (Initialize sc (searches \<sigma> (scSearch sc))) \<sigma>"

definition updatedAttrsWithValues :: "(string \<times> val) list \<Rightarrow> Scope \<Rightarrow> heap \<Rightarrow> heap" where
  "updatedAttrsWithValues attrs sc \<sigma> = emit (UpdatedAttrsWithValues sc attrs) \<sigma>"

definition run_step :: "env \<Rightarrow> chain \<Rightarrow> Scope \<Rightarrow> string \<Rightarrow> heap \<Rightarrow> heap" where
  "run_step E k sc name \<sigma> =
     (case step E k name (trace \<sigma>) sc of (eo, ro) \<Rightarrow>
        (let \<sigma>1 = snd (AddError (scdb sc) eo \<sigma>)
         in case ro of
              None \<Rightarrow> \<sigma>1
            | Some n \<Rightarrow> SetRowsAffected (scdb sc) n \<sigma>1))"

definition callCallbacks :: "env \<Rightarrow> chain \<Rightarrow> string list \<Rightarrow> Scope \<Rightarrow> heap \<Rightarrow> heap" where
  "callCallbacks E k names sc \<sigma> =
     fold (run_step E k sc) names
       (emit (CallCallbacks k names sc (searches \<sigma> (scSearch sc))) \<sigma>)"

definition schema :: "env \<Rightarrow> schema_op \<Rightarrow> Scope \<Rightarrow> heap \<Rightarrow> heap" where
  "schema E op sc \<sigma> =
     fold (\<lambda>e \<tau>. snd (AddError (scdb sc) (Some e) \<tau>)) (schema_errors E op (trace \<sigma>) sc)
       (emit (SchemaOp op sc (searches \<sigma> (scSearch sc))) \<sigma>)"

section \<open>Query, create and update operations\<close>

text \<open>
  \<open>First\<close>: a scope on the value, limit 1, the primary-key order setting, the inline
  conditions, then the parent's query chain; the result is the scope's handle.
\<close>

definition First :: "env \<Rightarrow> addr \<Rightarrow> val \<Rightarrow> val list \<Rightarrow> heap \<Rightarrow> (addr \<times> heap) option" where
  "First E a out ws \<sigma> =
     do {
       (sc, \<sigma>1) \<leftarrow> NewScope a out \<sigma>;
       let \<sigma>2 = on_scope_search (Search_Limit (VInt 1)) sc \<sigma>1;
       let \<sigma>3 = Scope_Set ''gorm:order_by_primary_key'' (VStr ''ASC'') sc \<sigma>2;
       let \<sigma>4 = inlineCondition ws sc \<sigma>3;
       names \<leftarrow> parent_chain Queries a \<sigma>4;
       Some (scdb sc, callCallbacks E Queries names sc \<sigma>4)
     }"

text \<open>\<open>New\<close>: a clone without condition set and value.\<close>

definition New :: "addr \<Rightarrow> heap \<Rightarrow> addr \<times> heap" where
  "New a \<sigma> = (case Clone a \<sigma> of (c, \<sigma>1) \<Rightarrow> (c, SetValue c VNil (SetSearch c None \<sigma>1)))"

definition FirstOrInit :: "env \<Rightarrow> addr \<Rightarrow> val \<Rightarrow> val list \<Rightarrow> heap \<Rightarrow> (addr \<times> heap) option" where
  "FirstOrInit E a out ws \<sigma> =
     (case Clone a \<sigma> of (c, \<sigma>1) \<Rightarrow>
        do {
          (result, \<sigma>2) \<leftarrow> First E c out ws \<sigma>1;
          if err (dbs \<sigma>2 result) \<noteq> None then
            if \<not> RecordNotFound (dbs \<sigma>2 result) then Some (result, \<sigma>2)
            else do {
              (sc, \<sigma>3) \<leftarrow> NewScope c out \<sigma>2;
              Some (c, initialize sc (inlineCondition ws sc \<sigma>3))
            }
          else do {
            (sc, \<sigma>3) \<leftarrow> NewScope c out \<sigma>2;
            p \<leftarrow> search (dbs \<sigma>3 c);
            Some (c, updatedAttrsWithValues (assignAttrs (searches \<sigma>3 p)) sc \<sigma>3)
          }
        })"

definition FirstOrCreate :: "env \<Rightarrow> addr \<Rightarrow> val \<Rightarrow> val list \<Rightarrow> heap \<Rightarrow> (addr \<times> heap) option" where
  "FirstOrCreate E a out ws \<sigma> =
     (case Clone a \<sigma> of (c, \<sigma>1) \<Rightarrow>
        do {
          (result, \<sigma>2) \<leftarrow> First E a out ws \<sigma>1;
          if err (dbs \<sigma>2 result) \<noteq> None then
            if \<not> RecordNotFound (dbs \<sigma>2 result) then Some (result, \<sigma>2)
            else do {
              (sc, \<sigma>3) \<leftarrow> NewScope c out \<sigma>2;
              let \<sigma>4 = initialize sc (inlineCondition ws sc \<sigma>3);
              names \<leftarrow> parent_chain Creates c \<sigma>4;
              Some (scdb sc, callCallbacks E Creates names sc \<sigma>4)
            }
          else do {
            p \<leftarrow> search (dbs \<sigma>2 c);
            if assignAttrs (searches \<sigma>2 p) \<noteq> [] then do {
              (sc, \<sigma>3) \<leftarrow> NewScope c out \<sigma>2;
              q \<leftarrow> search (dbs \<sigma>3 c);
              let sc' = InstanceSet ''gorm:update_interface'' (VMap (assignAttrs (searches \<sigma>3 q))) sc;
              names \<leftarrow> parent_chain Updates c \<sigma>3;
              Some (scdb sc', callCallbacks E Updates names sc' \<sigma>3)
            }
            else Some (c, \<sigma>2)
          }
        })"

definition Save :: "env \<Rightarrow> addr \<Rightarrow> val \<Rightarrow> heap \<Rightarrow> (addr \<times> heap) option" where
  "Save E a v \<sigma> =
     do {
       (sc, \<sigma>1) \<leftarrow> NewScope a v \<sigma>;
       if \<not> PrimaryKeyZero E (scValue sc) then do {
         names \<leftarrow> parent_chain Updates a \<sigma>1;
         let \<sigma>2 = callCallbacks E Updates names sc \<sigma>1;
         let newDB = scdb sc;
         if err (dbs \<sigma>2 newDB) = None \<and> rowsAffected (dbs \<sigma>2 newDB) = 0 then
           (case New a \<sigma>2 of (n, \<sigma>3) \<Rightarrow> FirstOrCreate E n v [] \<sigma>3)
         else Some (newDB, \<sigma>2)
       }
       else do {
         names \<leftarrow> parent_chain Creates a \<sigma>1;
         Some (scdb sc, callCallbacks E Creates names sc \<sigma>1)
       }
     }"

section \<open>Schema operations\<close>

text \<open>
  The loops of \<open>CreateTable\<close>, \<open>AutoMigrate\<close> and \<open>DropTable\<close>: \<open>db\<close> is replaced by the
  handle of each scope in turn. \<open>db\<close> is an interface value; calling a method on a nil
  one is a nil dereference.
\<close>

fun scope_loop :: "env \<Rightarrow> schema_op \<Rightarrow> addr option \<Rightarrow> val list \<Rightarrow> heap \<Rightarrow> (addr option \<times> heap) option" where
  "scope_loop E op d [] \<sigma> = Some (d, \<sigma>)"
| "scope_loop E op None (m # ms) \<sigma> = None"
| "scope_loop E op (Some d) (m # ms) \<sigma> =
     (case NewScope d m \<sigma> of
        None \<Rightarrow> None
      | Some (sc, \<sigma>1) \<Rightarrow> scope_loop E op (Some (scdb sc)) ms (schema E op sc \<sigma>1))"

definition CreateTable :: "env \<Rightarrow> addr \<Rightarrow> val list \<Rightarrow> heap \<Rightarrow> (addr option \<times> heap) option" where
  "CreateTable E a models \<sigma> =
     do { (d, \<sigma>1) \<leftarrow> Unscoped_db a \<sigma>; scope_loop E CreateTableOp d models \<sigma>1 }"

definition AutoMigrate :: "env \<Rightarrow> addr \<Rightarrow> val list \<Rightarrow> heap \<Rightarrow> (addr option \<times> heap) option" where
  "AutoMigrate E a vs \<sigma> =
     do { (d, \<sigma>1) \<leftarrow> Unscoped_db a \<sigma>; scope_loop E AutoMigrateOp d vs \<sigma>1 }"

fun DropTable_loop :: "env \<Rightarrow> addr option \<Rightarrow> val list \<Rightarrow> heap \<Rightarrow> (addr option \<times> heap) option" where
  "DropTable_loop E d [] \<sigma> = Some (d, \<sigma>)"
| "DropTable_loop E None (v # vs) \<sigma> = None"
| "DropTable_loop E (Some d) (v # vs) \<sigma> =
     (case (case v of VStr tn \<Rightarrow> Table d tn \<sigma> | _ \<Rightarrow> Some (Some d, \<sigma>)) of
        None \<Rightarrow> None
      | Some (None, \<sigma>1) \<Rightarrow> None
      | Some (Some d1, \<sigma>1) \<Rightarrow>
          (case NewScope d1 v \<sigma>1 of
             None \<Rightarrow> None
           | Some (sc, \<sigma>2) \<Rightarrow> DropTable_loop E (Some (scdb sc)) vs (schema E DropTableOp sc \<sigma>2)))"

definition DropTable :: "env \<Rightarrow> addr \<Rightarrow> val list \<Rightarrow> heap \<Rightarrow> (addr option \<times> heap) option" where
  "DropTable E a vs \<sigma> = (case Clone a \<sigma> of (c, \<sigma>1) \<Rightarrow> DropTable_loop E (Some c) vs \<sigma>1)"

text \<open>The index and foreign-key operations: one scope on the receiver's own value.\<close>

definition AddIndex :: "env \<Rightarrow> addr \<Rightarrow> string \<Rightarrow> string list \<Rightarrow> heap \<Rightarrow> (addr \<times> heap) option" where
  "AddIndex E a indexName columns \<sigma> =
     do {
       (d, \<sigma>1) \<leftarrow> Unscoped_db a \<sigma>;
       u \<leftarrow> d;
       (sc, \<sigma>2) \<leftarrow> NewScope u (dbValue (dbs \<sigma>1 a)) \<sigma>1;
       Some (scdb sc, schema E (AddIndexOp False indexName columns) sc \<sigma>2)
     }"

definition AddUniqueIndex :: "env \<Rightarrow> addr \<Rightarrow> string \<Rightarrow> string list \<Rightarrow> heap \<Rightarrow> (addr \<times> heap) option" where
  "AddUniqueIndex E a indexName columns \<sigma> =
     do {
       (d, \<sigma>1) \<leftarrow> Unscoped_db a \<sigma>;
       u \<leftarrow> d;
       (sc, \<sigma>2) \<leftarrow> NewScope u (dbValue (dbs \<sigma>1 a)) \<sigma>1;
       Some (scdb sc, schema E (AddIndexOp True indexName columns) sc \<sigma>2)
     }"

definition RemoveIndex :: "env \<Rightarrow> addr \<Rightarrow> string \<Rightarrow> heap \<Rightarrow> (addr \<times> heap) option" where
  "RemoveIndex E a indexName \<sigma> =
     do {
       (sc, \<sigma>1) \<leftarrow> NewScope a (dbValue (dbs \<sigma> a)) \<sigma>;
       Some (scdb sc, schema E (RemoveIndexOp indexName) sc \<sigma>1)
     }"

definition AddForeignKey ::
  "env \<Rightarrow> addr \<Rightarrow> string \<Rightarrow> string \<Rightarrow> string \<Rightarrow> string \<Rightarrow> heap \<Rightarrow> (addr \<times> heap) option" where
  "AddForeignKey E a field dest onDelete onUpdate \<sigma> =
     do {
       (sc, \<sigma>1) \<leftarrow> NewScope a (dbValue (dbs \<sigma> a)) \<sigma>;
       Some (scdb sc, schema E (AddForeignKeyOp field dest onDelete onUpdate) sc \<sigma>1)
     }"

definition RemoveForeignKey :: "env \<Rightarrow> addr \<Rightarrow> string \<Rightarrow> string \<Rightarrow> heap \<Rightarrow> (addr \<times> heap) option" where
  "RemoveForeignKey E a field dest \<sigma> =
     (case Clone a \<sigma> of (c, \<sigma>1) \<Rightarrow>
        do {
          (sc, \<sigma>2) \<leftarrow> NewScope c (dbValue (dbs \<sigma>1 a)) \<sigma>1;
          Some (scdb sc, schema E (RemoveForeignKeyOp field dest) sc \<sigma>2)
        })"

section \<open>Notions used in the statements\<close>

text \<open>An error value that is not an aggregate.\<close>

definition single :: "error \<Rightarrow> bool" where
  "single e = (case e of Errors es \<Rightarrow> False | _ \<Rightarrow> True)"

text \<open>
  Allocation discipline: the objects a handle points to were allocated before the
  counter's current value. Every store built from \<open>opened\<close> by the operations above
  satisfies it for each of its handles.
\<close>

definition allocated :: "addr \<Rightarrow> heap \<Rightarrow> bool" where
  "allocated a \<sigma> =
     (a < fresh \<sigma> \<and> parent (dbs \<sigma> a) < fresh \<sigma> \<and> dbValues (dbs \<sigma> a) < fresh \<sigma> \<and>
      dialect (dbs \<sigma> a) < fresh \<sigma> \<and>
      (case search (dbs \<sigma> a) of None \<Rightarrow> True | Some q \<Rightarrow> q < fresh \<sigma>))"

text \<open>The four objects \<open>Clone\<close> allocates and their content, written out.\<close>

definition clone_addr :: "heap \<Rightarrow> addr" where
  "clone_addr \<sigma> = Suc (Suc (Suc (fresh \<sigma>)))"

definition clone_search :: "addr \<Rightarrow> heap \<Rightarrow> Search" where
  "clone_search a \<sigma> =
     (case search (dbs \<sigma> a) of None \<Rightarrow> emptySearch | Some q \<Rightarrow> searches \<sigma> q)"

definition clone_db :: "addr \<Rightarrow> heap \<Rightarrow> gormDB" where
  "clone_db a \<sigma> =
     (let s = dbs \<sigma> a
      in \<lparr>dbValue = dbValue s, err = err s, rowsAffected = 0, db = db s,
          blockGlobalUpdate = blockGlobalUpdate s, logMode = logMode s,
          logger = logger s, search = Some (Suc (Suc (fresh \<sigma>))), dbValues = Suc (fresh \<sigma>),
          parent = parent s, callbacks = None, dialect = fresh \<sigma>, singularTable = False\<rparr>)"

definition cloned :: "addr \<Rightarrow> heap \<Rightarrow> heap" where
  "cloned a \<sigma> =
     \<sigma>\<lparr>dbs := (dbs \<sigma>)(clone_addr \<sigma> := clone_db a \<sigma>),
       searches := (searches \<sigma>)(Suc (Suc (fresh \<sigma>)) :=
          (clone_search a \<sigma>)\<lparr>sdb := Some (clone_addr \<sigma>)\<rparr>),
       dialects := (dialects \<sigma>)(fresh \<sigma> :=
          \<lparr>dname = dname (dialects \<sigma> (dialect (dbs \<sigma> a))), ddb = db (dbs \<sigma> a)\<rparr>),
       settings := (settings \<sigma>)(Suc (fresh \<sigma>) := settings \<sigma> (dbValues (dbs \<sigma> a))),
       fresh := Suc (clone_addr \<sigma>)\<rparr>"

text \<open>A later change of a condition set through its pointer.\<close>

definition mutate_search :: "addr \<Rightarrow> (Search \<Rightarrow> Search) \<Rightarrow> heap \<Rightarrow> heap" where
  "mutate_search p m \<sigma> = \<sigma>\<lparr>searches := (searches \<sigma>)(p := m (searches \<sigma> p))\<rparr>"

text \<open>The condition set a handle shows: nothing for a nil pointer.\<close>

definition Search_of :: "addr \<Rightarrow> heap \<Rightarrow> Search option" where
  "Search_of a \<sigma> = map_option (searches \<sigma>) (search (dbs \<sigma> a))"

text \<open>A transaction handle that is non-nil and neither committed nor rolled back.\<close>

definition active_tx :: "conn \<Rightarrow> heap \<Rightarrow> bool" where
  "active_tx c \<sigma> = (case c of ConnTx t \<Rightarrow> t \<notin> set (txDone \<sigma>) | _ \<Rightarrow> False)"

text \<open>The calls on the underlying connection, the chains run and the schema operations of a trace.\<close>

fun conn_calls :: "event list \<Rightarrow> event list" where
  "conn_calls [] = []"
| "conn_calls (DbBegin n # es) = DbBegin n # conn_calls es"
| "conn_calls (TxCommit t # es) = TxCommit t # conn_calls es"
| "conn_calls (TxRollback t # es) = TxRollback t # conn_calls es"
| "conn_calls (e # es) = conn_calls es"

fun chains_run :: "event list \<Rightarrow> chain list" where
  "chains_run [] = []"
| "chains_run (CallCallbacks k names sc S # es) = k # chains_run es"
| "chains_run (e # es) = chains_run es"

fun schema_log :: "event list \<Rightarrow> (schema_op \<times> val \<times> bool) list" where
  "schema_log [] = []"
| "schema_log (SchemaOp op sc S # es) = (op, scValue sc, Unscoped S) # schema_log es"
| "schema_log (e # es) = schema_log es"

section \<open>A store to run the operations on\<close>

text \<open>
  The store right after \<open>Open\<close> on a \<open>*sql.DB\<close>: the root handle at address 0 is its own
  parent, holds the default registry, a dialect and an empty settings map, has no
  condition set, and logs errors (mode 0).
\<close>

definition DefaultCallback :: Callback where
  "DefaultCallback =
     \<lparr>creates = [''gorm:create''], updates = [''gorm:update''], deletes = [''gorm:delete''],
      queries = [''gorm:query''], rowQueries = [''gorm:row_query'']\<rparr>"

definition root :: gormDB where
  "root =
     \<lparr>dbValue = VNil, err = None, rowsAffected = 0, db = ConnDB 0, blockGlobalUpdate = False,
      logMode = 0, logger = 0, search = None, dbValues = 0, parent = 0, callbacks = Some 0,
      dialect = 0, singularTable = False\<rparr>"

definition opened :: heap where
  "opened =
     \<lparr>dbs = (\<lambda>_. root), searches = (\<lambda>_. emptySearch), registries = (\<lambda>_. DefaultCallback),
      dialects = (\<lambda>_. \<lparr>dname = ''sqlite3'', ddb = ConnDB 0\<rparr>), settings = (\<lambda>_. Map.empty),
      fresh = 1, txDone = [], trace = []\<rparr>"

text \<open>
  A database in which every step of the query chain finds nothing, and every other step
  succeeds on one row; a value is blank when it is nil.
\<close>

definition empty_table :: env where
  "empty_table =
     \<lparr>PrimaryKeyZero = (\<lambda>v. v = VNil),
      step = (\<lambda>k name tr sc. if k = Queries then (Some ErrRecordNotFound, Some 0) else (None, Some 1)),
      schema_errors = (\<lambda>op tr sc. [])\<rparr>"

text \<open>A database in which every step fails with the same error and touches no row.\<close>

definition failing :: env where
  "failing =
     \<lparr>PrimaryKeyZero = (\<lambda>v. v = VNil),
      step = (\<lambda>k name tr sc. (Some (Err 1), Some 0)),
      schema_errors = (\<lambda>op tr sc. [Err 1])\<rparr>"

text \<open>A transaction begun on the root handle: the new handle is 4, the transaction 5.\<close>

definition begun :: heap where
  "begun = snd (Begin None 0 opened)"

text \<open>The same store after one \<open>Commit\<close> through handle 4.\<close>

definition committed :: heap where
  "committed = snd (Commit 4 begun)"

text \<open>Two handles cloned from the root: 4 and 8.\<close>

definition two_clones :: heap where
  "two_clones = snd (Clone 0 (snd (Clone 0 opened)))"

text \<open>A registration: one more step at the end of the query chain.\<close>

definition add_plugin :: "Callback \<Rightarrow> Callback" where
  "add_plugin r = r\<lparr>queries := queries r @ [''my_plugin'']\<rparr>"

section \<open>Scopes, traces and frames\<close>

text \<open>The scope \<open>NewScope\<close> builds and the store it leaves.\<close>

definition new_scope :: "val \<Rightarrow> heap \<Rightarrow> Scope" where
  "new_scope v \<sigma> =
     \<lparr>scdb = clone_addr \<sigma>, scSearch = Suc (clone_addr \<sigma>), scValue = v, scInstance = []\<rparr>"

definition scoped :: "addr \<Rightarrow> val \<Rightarrow> heap \<Rightarrow> heap" where
  "scoped a v \<sigma> =
     (let \<sigma>2 = SetValue (clone_addr \<sigma>) v (cloned a \<sigma>)
      in \<sigma>2\<lparr>searches := (searches \<sigma>2)(Suc (clone_addr \<sigma>) := searches \<sigma>2 (Suc (Suc (fresh \<sigma>)))),
            fresh := Suc (Suc (clone_addr \<sigma>))\<rparr>)"

text \<open>A trace that continues another one with log lines only.\<close>

fun is_Print :: "event \<Rightarrow> bool" where
  "is_Print (Print l e) = True"
| "is_Print _ = False"

definition logged_only :: "event list \<Rightarrow> event list \<Rightarrow> bool" where
  "logged_only tr tr' =
     (take (length tr) tr' = tr \<and> list_all is_Print (drop (length tr) tr'))"

text \<open>
  A store that differs from another one at most in the error and the rows-affected count
  of handle \<open>b\<close> and in log lines.
\<close>

definition quiet :: "addr \<Rightarrow> heap \<Rightarrow> heap \<Rightarrow> bool" where
  "quiet b \<sigma> \<sigma>' =
     (searches \<sigma>' = searches \<sigma> \<and> registries \<sigma>' = registries \<sigma> \<and> settings \<sigma>' = settings \<sigma> \<and>
      dialects \<sigma>' = dialects \<sigma> \<and> fresh \<sigma>' = fresh \<sigma> \<and> txDone \<sigma>' = txDone \<sigma> \<and>
      dbs \<sigma>' = (dbs \<sigma>)(b := dbs \<sigma>' b) \<and>
      (dbs \<sigma>' b)\<lparr>err := None, rowsAffected := 0\<rparr> = (dbs \<sigma> b)\<lparr>err := None, rowsAffected := 0\<rparr> \<and>
      logged_only (trace \<sigma>) (trace \<sigma>'))"

text \<open>A store that keeps every handle, condition set, settings map and registry of another one.\<close>

definition keeps :: "heap \<Rightarrow> heap \<Rightarrow> bool" where
  "keeps \<sigma> \<sigma>' =
     (fresh \<sigma> \<le> fresh \<sigma>' \<and> registries \<sigma>' = registries \<sigma> \<and>
      (\<forall>x<fresh \<sigma>. dbs \<sigma>' x = dbs \<sigma> x \<and> searches \<sigma>' x = searches \<sigma> x \<and>
                    settings \<sigma>' x = settings \<sigma> x))"

text \<open>What \<open>First\<close> does before it runs the chain.\<close>

definition first_prepared :: "addr \<Rightarrow> val \<Rightarrow> val list \<Rightarrow> heap \<Rightarrow> heap" where
  "first_prepared a out ws \<sigma> =
     inlineCondition ws (new_scope out \<sigma>)
       (Scope_Set ''gorm:order_by_primary_key'' (VStr ''ASC'') (new_scope out \<sigma>)
          (on_scope_search (Search_Limit (VInt 1)) (new_scope out \<sigma>) (scoped a out \<sigma>)))"

text \<open>
  The fragment \<open>inlineCondition\<close> adds, and what it means for a scope's condition set to
  carry the lookup conditions and the \<open>Attrs\<close>/\<open>Assign\<close> values of a handle's.
\<close>

definition inline_conds :: "val list \<Rightarrow> (kind \<times> val \<times> val list) list" where
  "inline_conds ws = (case ws of [] \<Rightarrow> [] | w # rest \<Rightarrow> [(KWhere, w, rest)])"

definition seeded :: "Search \<Rightarrow> val list \<Rightarrow> Search \<Rightarrow> bool" where
  "seeded S0 ws S =
     (conds S = conds S0 @ inline_conds ws \<and> initAttrs S = initAttrs S0 \<and>
      assignAttrs S = assignAttrs S0)"

text \<open>Errors added one after the other through \<open>AddError\<close>.\<close>

definition add_errors :: "error list \<Rightarrow> addr \<Rightarrow> heap \<Rightarrow> heap" where
  "add_errors es a \<sigma> = fold (\<lambda>e \<tau>. snd (AddError a (Some e) \<tau>)) es \<sigma>"

text \<open>The opened store after a lookup that found nothing left the sentinel on the root handle.\<close>

definition stale :: heap where
  "stale = snd (AddError 0 (Some ErrRecordNotFound) opened)"

text \<open>The values \<open>initialize\<close> ran on, in a trace.\<close>

fun initialized :: "event list \<Rightarrow> val list" where
  "initialized [] = []"
| "initialized (Initialize sc S # es) = scValue sc # initialized es"
| "initialized (e # es) = initialized es"

section \<open>Facts about the error set\<close>

lemma hasRecordNotFound_set: "hasRecordNotFound es \<longleftrightarrow> ErrRecordNotFound \<in> set es"
  by (induction es) auto

lemma GetErrors_single: "single e \<Longrightarrow> GetErrors (s\<lparr>err := Some e\<rparr>) = [e]"
  by (cases e) (simp_all add: GetErrors_def single_def)

lemma GetErrors_Errors: "GetErrors (s\<lparr>err := Some (Errors es)\<rparr>) = es"
  by (simp add: GetErrors_def)

lemma GetErrors_cases:
  "GetErrors s = [] \<or> (\<exists>e. err s = Some e \<and> single e \<and> GetErrors s = [e]) \<or>
   err s = Some (Errors (GetErrors s))"
  by (auto simp: GetErrors_def single_def split: option.splits error.splits)

lemma short_list_mem: "\<not> Suc 0 < length xs \<Longrightarrow> e \<in> set xs \<Longrightarrow> xs = [e]"
  by (cases xs) auto

lemma AddError_GetErrors:
  assumes "single e" "e \<noteq> ErrRecordNotFound"
  shows "GetErrors (dbs (snd (AddError a (Some e) \<sigma>)) a) = Errors_Add (GetErrors (dbs \<sigma> a)) e"
  using assms GetErrors_cases[of "dbs \<sigma> a"]
  by (auto simp: AddError_def Let_def SetError_def Print_db_def Log_def GetErrors_single
      GetErrors_Errors Errors_Add_def dest: short_list_mem)

lemma AddError_err:
  assumes "e \<noteq> ErrRecordNotFound"
  shows "err (dbs (snd (AddError a (Some e) \<sigma>)) a) =
     Some (if Suc 0 < length (Errors_Add (GetErrors (dbs \<sigma> a)) e)
           then Errors (Errors_Add (GetErrors (dbs \<sigma> a)) e) else e)"
  using assms
  by (simp add: AddError_def Let_def SetError_def Print_db_def Log_def)

lemma AddError_trace:
  "trace (snd (AddError a (Some e) \<sigma>)) =
     trace \<sigma> @ (if e \<noteq> ErrRecordNotFound \<and> (logMode (dbs \<sigma> a) = 0 \<or> logMode (dbs \<sigma> a) = 2)
                then [Print (logger (dbs \<sigma> a)) e] else [])"
  by (simp add: AddError_def Let_def SetError_def Print_db_def Log_def)

lemma AddError_fst: "fst (AddError a eo \<sigma>) = (case eo of None \<Rightarrow> None | Some e \<Rightarrow> err (dbs (snd (AddError a eo \<sigma>)) a))"
  by (simp add: AddError_def Let_def SetError_def split: option.splits)

text \<open>
  Claim C5, as amended. For every error \<open>e\<close> other than the sentinel, aggregate or not,
  \<open>AddError\<close> adds \<open>e\<close> to the handle's current error set unless it is already a member:
  the handle's error becomes \<open>e\<close> itself when the set was empty or was \<open>e\<close> alone, the
  unchanged aggregate when \<open>e\<close> was one of several members, and otherwise the aggregate of
  the set followed by \<open>e\<close>. For a single error this means the set \<open>GetErrors\<close> returns
  grows by \<open>e\<close> at most once and stays free of duplicates. A sentinel already stored is
  combined with \<open>e\<close> into an aggregate. The call returns the handle's new error, and the
  line goes to the logger in log modes 0 and 2. Adding the sentinel replaces the handle's
  error, whatever had accumulated, by the sentinel alone, and logs nothing.
\<close>

theorem AddError_accumulates:
  assumes "e \<noteq> ErrRecordNotFound"
  shows "err (dbs (snd (AddError a (Some e) \<sigma>)) a) =
           Some (if e \<in> set (GetErrors (dbs \<sigma> a))
                 then (if Suc 0 < length (GetErrors (dbs \<sigma> a))
                       then Errors (GetErrors (dbs \<sigma> a)) else e)
                 else if GetErrors (dbs \<sigma> a) = [] then e
                 else Errors (GetErrors (dbs \<sigma> a) @ [e]))
         \<and> (single e \<longrightarrow>
              GetErrors (dbs (snd (AddError a (Some e) \<sigma>)) a) =
                (if e \<in> set (GetErrors (dbs \<sigma> a)) then GetErrors (dbs \<sigma> a)
                 else GetErrors (dbs \<sigma> a) @ [e]))
         \<and> (single e \<and> distinct (GetErrors (dbs \<sigma> a)) \<longrightarrow>
              distinct (GetErrors (dbs (snd (AddError a (Some e) \<sigma>)) a)))
         \<and> (GetErrors (dbs \<sigma> a) = [ErrRecordNotFound] \<longrightarrow>
              err (dbs (snd (AddError a (Some e) \<sigma>)) a) = Some (Errors [ErrRecordNotFound, e]))
         \<and> fst (AddError a (Some e) \<sigma>) = err (dbs (snd (AddError a (Some e) \<sigma>)) a)
         \<and> trace (snd (AddError a (Some e) \<sigma>)) =
             trace \<sigma> @ (if logMode (dbs \<sigma> a) = 0 \<or> logMode (dbs \<sigma> a) = 2
                        then [Print (logger (dbs \<sigma> a)) e] else [])
         \<and> err (dbs (snd (AddError a (Some ErrRecordNotFound) \<sigma>)) a) = Some ErrRecordNotFound
         \<and> GetErrors (dbs (snd (AddError a (Some ErrRecordNotFound) \<sigma>)) a) = [ErrRecordNotFound]
         \<and> trace (snd (AddError a (Some ErrRecordNotFound) \<sigma>)) = trace \<sigma>"
proof -
  let ?before = "GetErrors (dbs \<sigma> a)"
  let ?after = "GetErrors (dbs (snd (AddError a (Some e) \<sigma>)) a)"
  have new: "err (dbs (snd (AddError a (Some e) \<sigma>)) a) =
           Some (if e \<in> set ?before
                 then (if Suc 0 < length ?before then Errors ?before else e)
                 else if ?before = [] then e else Errors (?before @ [e]))"
    using assms by (cases ?before) (simp_all add: AddError_err Errors_Add_def)
  have step: "single e \<longrightarrow> ?after = (if e \<in> set ?before then ?before else ?before @ [e])"
    using assms by (simp add: AddError_GetErrors Errors_Add_def)
  have dist: "single e \<and> distinct ?before \<longrightarrow> distinct ?after"
    using assms by (simp add: AddError_GetErrors Errors_Add_def)
  have comb: "?before = [ErrRecordNotFound] \<longrightarrow>
      err (dbs (snd (AddError a (Some e) \<sigma>)) a) = Some (Errors [ErrRecordNotFound, e])"
    using assms by (simp add: AddError_err Errors_Add_def)
  have ret: "fst (AddError a (Some e) \<sigma>) = err (dbs (snd (AddError a (Some e) \<sigma>)) a)"
    by (simp add: AddError_fst)
  have logged: "trace (snd (AddError a (Some e) \<sigma>)) =
      trace \<sigma> @ (if logMode (dbs \<sigma> a) = 0 \<or> logMode (dbs \<sigma> a) = 2
                 then [Print (logger (dbs \<sigma> a)) e] else [])"
    using assms by (simp add: AddError_trace)
  have sentinel: "err (dbs (snd (AddError a (Some ErrRecordNotFound) \<sigma>)) a) = Some ErrRecordNotFound"
    by (simp add: AddError_def SetError_def)
  then have alone: "GetErrors (dbs (snd (AddError a (Some ErrRecordNotFound) \<sigma>)) a) = [ErrRecordNotFound]"
    by (simp add: GetErrors_def)
  have quiet: "trace (snd (AddError a (Some ErrRecordNotFound) \<sigma>)) = trace \<sigma>"
    by (simp add: AddError_trace)
  show ?thesis
    by (intro conjI new step dist comb ret logged sentinel alone quiet)
qed

theorem AddError_accumulates_witness:
  "Err 2 \<noteq> ErrRecordNotFound \<and>
   err (dbs (snd (AddError 0 (Some (Err 2)) (SetError 0 (Some (Err 1)) opened))) 0) =
     Some (Errors [Err 1, Err 2]) \<and>
   GetErrors (dbs (snd (AddError 0 (Some (Err 2)) (SetError 0 (Some (Err 1)) opened))) 0) =
     [Err 1, Err 2]"
proof -
  have s: "single (Err 2)"
    by (simp add: single_def)
  have n: "Err 2 \<noteq> ErrRecordNotFound"
    by simp
  have b: "GetErrors (dbs (SetError 0 (Some (Err 1)) opened) 0) = [Err 1]"
    by (simp add: SetError_def GetErrors_def)
  from AddError_accumulates [OF n, of 0 "SetError 0 (Some (Err 1)) opened"] b s n
  show ?thesis
    by simp
qed

lemma opened_root_log: "logMode (dbs opened 0) = 0" "err (dbs opened 0) = None"
  by (simp_all add: opened_def root_def)

text \<open>
  Claim C5 as stated has every accumulated error exposed by the aggregate and the sentinel
  never part of one. On the opened store: after two errors the handle's error is their
  aggregate; adding the sentinel then leaves the sentinel alone, the two errors are gone;
  and an error added after the sentinel is combined with it into an aggregate.
\<close>

theorem sentinel_discards_accumulated:
  "err (dbs (add_errors [Err 1, Err 2] 0 opened) 0) = Some (Errors [Err 1, Err 2]) \<and>
   GetErrors (dbs (add_errors [Err 1, Err 2, ErrRecordNotFound] 0 opened) 0) = [ErrRecordNotFound] \<and>
   err (dbs (add_errors [ErrRecordNotFound, Err 1] 0 opened) 0) =
     Some (Errors [ErrRecordNotFound, Err 1])"
  by (simp add: add_errors_def AddError_def Let_def SetError_def Print_db_def Log_def
      GetErrors_def Errors_Add_def opened_root_log)

text \<open>
  Claim C6. \<open>RecordNotFound\<close> is true exactly when the sentinel is a member of the list
  \<open>GetErrors\<close> returns. A handle whose error is one other error has a non-nil error and
  \<open>RecordNotFound\<close> false, and so has a handle without the sentinel after another error
  was added to it.
\<close>

theorem RecordNotFound_sentinel:
  "(RecordNotFound s \<longleftrightarrow> ErrRecordNotFound \<in> set (GetErrors s)) \<and>
   (single e \<and> e \<noteq> ErrRecordNotFound \<and> err s = Some e \<longrightarrow> \<not> RecordNotFound s) \<and>
   (single e \<and> e \<noteq> ErrRecordNotFound \<and> \<not> RecordNotFound (dbs \<sigma> a) \<longrightarrow>
      err (dbs (snd (AddError a (Some e) \<sigma>)) a) \<noteq> None \<and>
      \<not> RecordNotFound (dbs (snd (AddError a (Some e) \<sigma>)) a))"
proof (intro conjI impI)
  show "RecordNotFound s \<longleftrightarrow> ErrRecordNotFound \<in> set (GetErrors s)"
    by (simp add: RecordNotFound_def hasRecordNotFound_set)
next
  assume "single e \<and> e \<noteq> ErrRecordNotFound \<and> err s = Some e"
  then show "\<not> RecordNotFound s"
    by (cases e) (simp_all add: RecordNotFound_def GetErrors_def single_def)
next
  assume h: "single e \<and> e \<noteq> ErrRecordNotFound \<and> \<not> RecordNotFound (dbs \<sigma> a)"
  then show "err (dbs (snd (AddError a (Some e) \<sigma>)) a) \<noteq> None"
    by (simp add: AddError_err)
  from h show "\<not> RecordNotFound (dbs (snd (AddError a (Some e) \<sigma>)) a)"
    by (auto simp: RecordNotFound_def hasRecordNotFound_set AddError_GetErrors Errors_Add_def)
qed

theorem RecordNotFound_sentinel_witness:
  "RecordNotFound (root\<lparr>err := Some (Errors [Err 1, ErrRecordNotFound])\<rparr>) \<and>
   \<not> RecordNotFound (root\<lparr>err := Some (Err 1)\<rparr>) \<and>
   err (dbs (snd (AddError 0 (Some (Err 1)) opened)) 0) \<noteq> None \<and>
   \<not> RecordNotFound (dbs (snd (AddError 0 (Some (Err 1)) opened)) 0)"
proof -
  have s: "single (Err 1)"
    by (simp add: single_def)
  have g: "GetErrors (root\<lparr>err := Some (Errors [Err 1, ErrRecordNotFound])\<rparr>) = [Err 1, ErrRecordNotFound]"
    by (simp add: GetErrors_def)
  have o: "\<not> RecordNotFound (dbs opened 0)"
    by (simp add: RecordNotFound_def GetErrors_def opened_def root_def)
  from RecordNotFound_sentinel [of "root\<lparr>err := Some (Errors [Err 1, ErrRecordNotFound])\<rparr>" "Err 1" opened 0]
    RecordNotFound_sentinel [of "root\<lparr>err := Some (Err 1)\<rparr>" "Err 1" opened 0] s g o
  show ?thesis
    by auto
qed


section \<open>Facts about Clone\<close>

lemma Clone_eq: "Clone a \<sigma> = (clone_addr \<sigma>, cloned a \<sigma>)"
  by (cases "search (dbs \<sigma> a)")
     (simp_all add: Clone_def newDialect_def new_Search_def Search_clone_def clone_db_def
       clone_search_def clone_addr_def cloned_def Let_def)

lemma clone_db_search: "search (clone_db a \<sigma>) = Some (Suc (Suc (fresh \<sigma>)))"
  by (simp add: clone_db_def Let_def)

lemma cloned_simps:
  "dbs (cloned a \<sigma>) = (dbs \<sigma>)(clone_addr \<sigma> := clone_db a \<sigma>)"
  "searches (cloned a \<sigma>) = (searches \<sigma>)(Suc (Suc (fresh \<sigma>)) :=
          (clone_search a \<sigma>)\<lparr>sdb := Some (clone_addr \<sigma>)\<rparr>)"
  "settings (cloned a \<sigma>) = (settings \<sigma>)(Suc (fresh \<sigma>) := settings \<sigma> (dbValues (dbs \<sigma> a)))"
  "dialects (cloned a \<sigma>) = (dialects \<sigma>)(fresh \<sigma> :=
          \<lparr>dname = dname (dialects \<sigma> (dialect (dbs \<sigma> a))), ddb = db (dbs \<sigma> a)\<rparr>)"
  "registries (cloned a \<sigma>) = registries \<sigma>"
  "fresh (cloned a \<sigma>) = Suc (clone_addr \<sigma>)"
  "trace (cloned a \<sigma>) = trace \<sigma>"
  "txDone (cloned a \<sigma>) = txDone \<sigma>"
  by (simp_all add: cloned_def)

lemma call_search_sdb: "sdb (call_search k s) = sdb s"
  by (cases k)
     (simp_all add: Search_Where_def Search_Or_def Search_Not_def Search_Limit_def
        Search_Offset_def Search_Order_def Search_Select_def Search_Omit_def Search_Group_def
        Search_Having_def Search_Joins_def Search_Preload_def Search_Attrs_def Search_Assign_def
        Search_unscoped_def Search_Table_def Search_Raw_def split: list.splits bool.splits)

lemma on_clone_search_eq:
  assumes "\<And>s. sdb (m s) = sdb s"
  shows "on_clone_search m a \<sigma> =
    Some (Some (clone_addr \<sigma>), mutate_search (Suc (Suc (fresh \<sigma>))) m (cloned a \<sigma>))"
  by (simp add: on_clone_search_def Clone_eq assms clone_db_search Let_def cloned_simps
      mutate_search_def)

lemma SetValue_same: "SetValue (clone_addr \<sigma>) (dbValue (dbs \<sigma> a)) (cloned a \<sigma>) = cloned a \<sigma>"
  by (simp add: SetValue_def cloned_def clone_db_def Let_def)

lemma on_clone_search_call:
  "on_clone_search (call_search k) a \<sigma> =
    Some (Some (clone_addr \<sigma>), mutate_search (Suc (Suc (fresh \<sigma>))) (call_search k) (cloned a \<sigma>))"
  by (rule on_clone_search_eq) (rule call_search_sdb)

lemma do_call_eq:
  "do_call k a \<sigma> =
    Some (Some (clone_addr \<sigma>),
          mutate_search (Suc (Suc (fresh \<sigma>))) (call_search k)
            (SetValue (clone_addr \<sigma>) (call_value k (dbValue (dbs \<sigma> a))) (cloned a \<sigma>)))"
proof (cases k)
  case (CModel v)
  then show ?thesis
    by (simp add: Model_def Clone_eq mutate_search_def)
next
  case (CTable name)
  then show ?thesis
    by (simp add: Table_def Clone_eq SetValue_def mutate_search_def clone_db_search Let_def cloned_simps)
qed (use on_clone_search_call [of k a \<sigma>] in
     \<open>simp_all add: Where_def Or_db_def Not_db_def Limit_def Offset_def Order_def Select_def
      Omit_def Group_def Having_def Joins_def Preload_def Attrs_def Assign_def Unscoped_db_def
      Raw_def SetValue_same\<close>)

text \<open>
  Claim C10, as amended. The handle \<open>Clone\<close> returns has \<open>rowsAffected\<close> 0 whatever the
  receiver's count is, and the receiver's error, value, settings entries, log mode and
  block-global-update flag. Every condition-building call succeeds and returns a handle
  with \<open>rowsAffected\<close> 0 and the receiver's error, settings entries, log mode and flag; its
  value is the receiver's, except after \<open>Model\<close>, where it is the argument, and after
  \<open>Table\<close>, where it is nil.
\<close>

theorem Clone_resets_rowsAffected:
  "(case Clone a \<sigma> of (c, \<sigma>') \<Rightarrow>
      rowsAffected (dbs \<sigma>' c) = 0 \<and>
      err (dbs \<sigma>' c) = err (dbs \<sigma> a) \<and>
      dbValue (dbs \<sigma>' c) = dbValue (dbs \<sigma> a) \<and>
      settings \<sigma>' (dbValues (dbs \<sigma>' c)) = settings \<sigma> (dbValues (dbs \<sigma> a)) \<and>
      logMode (dbs \<sigma>' c) = logMode (dbs \<sigma> a) \<and>
      blockGlobalUpdate (dbs \<sigma>' c) = blockGlobalUpdate (dbs \<sigma> a)) \<and>
   (\<exists>c \<sigma>'. do_call k a \<sigma> = Some (Some c, \<sigma>') \<and> rowsAffected (dbs \<sigma>' c) = 0 \<and>
      err (dbs \<sigma>' c) = err (dbs \<sigma> a) \<and>
      ((\<forall>v. k \<noteq> CModel v) \<and> (\<forall>n. k \<noteq> CTable n) \<longrightarrow>
         dbValue (dbs \<sigma>' c) = dbValue (dbs \<sigma> a)) \<and>
      (\<forall>v. k = CModel v \<longrightarrow> dbValue (dbs \<sigma>' c) = v) \<and>
      (\<forall>n. k = CTable n \<longrightarrow> dbValue (dbs \<sigma>' c) = VNil) \<and>
      settings \<sigma>' (dbValues (dbs \<sigma>' c)) = settings \<sigma> (dbValues (dbs \<sigma> a)) \<and>
      logMode (dbs \<sigma>' c) = logMode (dbs \<sigma> a) \<and>
      blockGlobalUpdate (dbs \<sigma>' c) = blockGlobalUpdate (dbs \<sigma> a))"
proof -
  have v: "((\<forall>v. k \<noteq> CModel v) \<and> (\<forall>n. k \<noteq> CTable n) \<longrightarrow> call_value k w = w) \<and>
      (\<forall>v. k = CModel v \<longrightarrow> call_value k w = v) \<and>
      (\<forall>n. k = CTable n \<longrightarrow> call_value k w = VNil)" for w
    by (cases k) simp_all
  have c: "dbValue (dbs (mutate_search (Suc (Suc (fresh \<sigma>))) (call_search k)
            (SetValue (clone_addr \<sigma>) (call_value k (dbValue (dbs \<sigma> a))) (cloned a \<sigma>)))
            (clone_addr \<sigma>)) = call_value k (dbValue (dbs \<sigma> a))"
    by (simp add: mutate_search_def SetValue_def cloned_simps)
  show ?thesis
    apply (rule conjI)
     apply (simp add: Clone_eq cloned_simps clone_db_def Let_def)
    apply (rule exI [of _ "clone_addr \<sigma>"])
    apply (rule exI [of _ "mutate_search (Suc (Suc (fresh \<sigma>))) (call_search k)
            (SetValue (clone_addr \<sigma>) (call_value k (dbValue (dbs \<sigma> a))) (cloned a \<sigma>))"])
    apply (intro conjI)
            apply (rule do_call_eq)
           apply (simp add: mutate_search_def SetValue_def cloned_simps clone_db_def Let_def)
          apply (simp add: mutate_search_def SetValue_def cloned_simps clone_db_def Let_def)
         apply (simp only: c, rule v [THEN conjunct1])
        apply (simp only: c, rule v [THEN conjunct2, THEN conjunct1])
       apply (simp only: c, rule v [THEN conjunct2, THEN conjunct2])
      apply (simp add: mutate_search_def SetValue_def cloned_simps clone_db_def Let_def)
     apply (simp add: mutate_search_def SetValue_def cloned_simps clone_db_def Let_def)
    apply (simp add: mutate_search_def SetValue_def cloned_simps clone_db_def Let_def)
    done
qed

theorem Clone_resets_rowsAffected_witness:
  "(\<forall>v. CLimit (VInt 1) \<noteq> CModel v) \<and> (\<forall>n. CLimit (VInt 1) \<noteq> CTable n) \<and>
   (\<exists>c \<sigma>'. do_call (CLimit (VInt 1)) 0 (SetValue 0 (VStr ''user'') opened) = Some (Some c, \<sigma>') \<and>
      rowsAffected (dbs \<sigma>' c) = 0 \<and> dbValue (dbs \<sigma>' c) = VStr ''user'')"
proof -
  have h: "(\<forall>v. CLimit (VInt 1) \<noteq> CModel v) \<and> (\<forall>n. CLimit (VInt 1) \<noteq> CTable n)"
    by simp
  have w: "dbValue (dbs (SetValue 0 (VStr ''user'') opened) 0) = VStr ''user''"
    by (simp add: SetValue_def)
  from Clone_resets_rowsAffected [where a = 0 and \<sigma> = "SetValue 0 (VStr ''user'') opened"
      and k = "CLimit (VInt 1)", THEN conjunct2]
  obtain c \<sigma>' where
    "do_call (CLimit (VInt 1)) 0 (SetValue 0 (VStr ''user'') opened) = Some (Some c, \<sigma>')"
    "rowsAffected (dbs \<sigma>' c) = 0"
    "(\<forall>v. CLimit (VInt 1) \<noteq> CModel v) \<and> (\<forall>n. CLimit (VInt 1) \<noteq> CTable n) \<longrightarrow>
         dbValue (dbs \<sigma>' c) = dbValue (dbs (SetValue 0 (VStr ''user'') opened) 0)"
    by blast
  with h w show ?thesis
    by auto
qed

text \<open>
  Claim C10 as stated has every condition-building call carry the receiver's value over.
  \<open>Model\<close> on the root handle, whose value is nil, returns a handle with the model as its
  value; \<open>Table\<close> on a handle with a value returns a handle whose value is nil.
\<close>

theorem Model_and_Table_replace_value:
  "fst (the (do_call (CModel (VStr ''user'')) 0 opened)) = Some 4 \<and>
   dbValue (dbs (snd (the (do_call (CModel (VStr ''user'')) 0 opened))) 4) = VStr ''user'' \<and>
   dbValue (dbs opened 0) = VNil \<and>
   fst (the (do_call (CTable ''users'') 0 (SetValue 0 (VStr ''user'') opened))) = Some 4 \<and>
   dbValue (dbs (snd (the (do_call (CTable ''users'') 0 (SetValue 0 (VStr ''user'') opened)))) 4) = VNil \<and>
   dbValue (dbs (SetValue 0 (VStr ''user'') opened) 0) = VStr ''user''"
proof -
  have c: "clone_addr opened = 4" "clone_addr (SetValue 0 (VStr ''user'') opened) = 4"
    by (simp_all add: clone_addr_def opened_def SetValue_def)
  have r: "dbValue (dbs opened 0) = VNil"
    by (simp add: opened_def root_def)
  show ?thesis
    unfolding do_call_eq [of "CModel (VStr ''user'')" 0 opened]
      do_call_eq [of "CTable ''users''" 0 "SetValue 0 (VStr ''user'') opened"]
    by (simp add: c r mutate_search_def cloned_simps) (simp add: SetValue_def)
qed

text \<open>
  Claim C9. \<open>Set\<close> is \<open>InstantSet\<close> on the clone: the handle returned is a new one with
  its own settings map, holding the receiver's entries and the new one, and the receiver
  and its settings are as before. \<open>InstantSet\<close> returns the receiver, allocates nothing
  and changes only the map the receiver points to. \<open>Get\<close> only reads the store (it
  returns no store); its flag tells whether the key is present, and on the handle
  \<open>Set\<close> returned it yields the value and \<open>True\<close>.
\<close>

theorem Set_clones_InstantSet_in_place:
  assumes "allocated a \<sigma>"
  shows "(case Set_db a name v \<sigma> of (c, \<sigma>') \<Rightarrow>
            Set_db a name v \<sigma> = InstantSet (fst (Clone a \<sigma>)) name v (snd (Clone a \<sigma>)) \<and>
            fresh \<sigma> \<le> c \<and> c \<noteq> a \<and> dbValues (dbs \<sigma>' c) \<noteq> dbValues (dbs \<sigma> a) \<and>
            dbs \<sigma>' a = dbs \<sigma> a \<and>
            settings \<sigma>' (dbValues (dbs \<sigma>' a)) = settings \<sigma> (dbValues (dbs \<sigma> a)) \<and>
            settings \<sigma>' (dbValues (dbs \<sigma>' c)) = (settings \<sigma> (dbValues (dbs \<sigma> a)))(name \<mapsto> v) \<and>
            Get c name \<sigma>' = (v, True))
       \<and> (case InstantSet a name v \<sigma> of (b, \<sigma>') \<Rightarrow>
            b = a \<and> dbs \<sigma>' = dbs \<sigma> \<and> fresh \<sigma>' = fresh \<sigma> \<and>
            settings \<sigma>' = (settings \<sigma>)(dbValues (dbs \<sigma> a) :=
                             (settings \<sigma> (dbValues (dbs \<sigma> a)))(name \<mapsto> v)) \<and>
            Get a name \<sigma>' = (v, True))
       \<and> (snd (Get a name \<sigma>) \<longleftrightarrow> name \<in> dom (settings \<sigma> (dbValues (dbs \<sigma> a))))
       \<and> (\<forall>w. settings \<sigma> (dbValues (dbs \<sigma> a)) name = Some w \<longrightarrow> Get a name \<sigma> = (w, True))"
proof -
  from assms have lt: "a < fresh \<sigma>" "dbValues (dbs \<sigma> a) < fresh \<sigma>"
    by (simp_all add: allocated_def)
  have 1: "(case Set_db a name v \<sigma> of (c, \<sigma>') \<Rightarrow>
            Set_db a name v \<sigma> = InstantSet (fst (Clone a \<sigma>)) name v (snd (Clone a \<sigma>)) \<and>
            fresh \<sigma> \<le> c \<and> c \<noteq> a \<and> dbValues (dbs \<sigma>' c) \<noteq> dbValues (dbs \<sigma> a) \<and>
            dbs \<sigma>' a = dbs \<sigma> a \<and>
            settings \<sigma>' (dbValues (dbs \<sigma>' a)) = settings \<sigma> (dbValues (dbs \<sigma> a)) \<and>
            settings \<sigma>' (dbValues (dbs \<sigma>' c)) = (settings \<sigma> (dbValues (dbs \<sigma> a)))(name \<mapsto> v) \<and>
            Get c name \<sigma>' = (v, True))"
    using lt
    by (simp add: Set_db_def Clone_eq InstantSet_def Get_def Let_def cloned_simps clone_addr_def
        clone_db_def)
  have 2: "(case InstantSet a name v \<sigma> of (b, \<sigma>') \<Rightarrow>
            b = a \<and> dbs \<sigma>' = dbs \<sigma> \<and> fresh \<sigma>' = fresh \<sigma> \<and>
            settings \<sigma>' = (settings \<sigma>)(dbValues (dbs \<sigma> a) :=
                             (settings \<sigma> (dbValues (dbs \<sigma> a)))(name \<mapsto> v)) \<and>
            Get a name \<sigma>' = (v, True))"
    by (simp add: InstantSet_def Get_def Let_def)
  have 3: "snd (Get a name \<sigma>) \<longleftrightarrow> name \<in> dom (settings \<sigma> (dbValues (dbs \<sigma> a)))"
    by (auto simp: Get_def split: option.splits)
  have 4: "\<forall>w. settings \<sigma> (dbValues (dbs \<sigma> a)) name = Some w \<longrightarrow> Get a name \<sigma> = (w, True)"
    by (simp add: Get_def)
  from 1 2 3 4 show ?thesis
    by blast
qed

theorem Set_clones_InstantSet_in_place_witness:
  "allocated 0 opened \<and>
   fst (Set_db 0 ''gorm:insert_option'' (VStr ''x'') opened) = 4 \<and>
   Get 4 ''gorm:insert_option'' (snd (Set_db 0 ''gorm:insert_option'' (VStr ''x'') opened)) = (VStr ''x'', True) \<and>
   Get 0 ''gorm:insert_option'' (snd (Set_db 0 ''gorm:insert_option'' (VStr ''x'') opened)) = (VNil, False)"
proof -
  have al: "allocated 0 opened"
    by (simp add: allocated_def opened_def root_def)
  have c: "fst (Set_db 0 ''gorm:insert_option'' (VStr ''x'') opened) = 4"
    by (simp add: Set_db_def Clone_eq InstantSet_def Let_def clone_addr_def opened_def)
  have e: "settings opened (dbValues (dbs opened 0)) = Map.empty"
    by (simp add: opened_def)
  from Set_clones_InstantSet_in_place [OF al, of "''gorm:insert_option''" "VStr ''x''"] al c e
  show ?thesis
    by (auto simp: Get_def split: prod.splits)
qed

text \<open>
  Claim C1, as amended. Each of the eighteen condition-building calls succeeds and returns
  a new handle \<open>c\<close> with a new condition set \<open>p\<close>: the receiver's condition set (an empty
  one with limit and offset -1 if the receiver has none) copied, pointed back at \<open>c\<close>,
  with the call's change applied; the value is the receiver's, or the one \<open>Model\<close> and
  \<open>Table\<close> set. Connection and parent are the receiver's; the dialect is a new object
  built from the receiver's dialect name and connection. The receiver and its condition
  set are unchanged, a later change of the clone's condition set does not show through the
  receiver, and a later change of the receiver's does not show through the clone.
\<close>

theorem condition_builders_clone:
  assumes "allocated a \<sigma>"
  shows "\<exists>c p \<sigma>'. do_call k a \<sigma> = Some (Some c, \<sigma>') \<and>
           fresh \<sigma> \<le> c \<and> fresh \<sigma> \<le> p \<and>
           search (dbs \<sigma>' c) = Some p \<and>
           searches \<sigma>' p = call_search k ((clone_search a \<sigma>)\<lparr>sdb := Some c\<rparr>) \<and>
           dbValue (dbs \<sigma>' c) = call_value k (dbValue (dbs \<sigma> a)) \<and>
           db (dbs \<sigma>' c) = db (dbs \<sigma> a) \<and>
           parent (dbs \<sigma>' c) = parent (dbs \<sigma> a) \<and>
           fresh \<sigma> \<le> dialect (dbs \<sigma>' c) \<and>
           dialects \<sigma>' (dialect (dbs \<sigma>' c)) =
             \<lparr>dname = dname (dialects \<sigma> (dialect (dbs \<sigma> a))), ddb = db (dbs \<sigma> a)\<rparr> \<and>
           dbs \<sigma>' a = dbs \<sigma> a \<and>
           Search_of a \<sigma>' = Search_of a \<sigma> \<and>
           (\<forall>m. Search_of a (mutate_search p m \<sigma>') = Search_of a \<sigma>) \<and>
           (\<forall>q m. search (dbs \<sigma> a) = Some q \<longrightarrow>
                  Search_of c (mutate_search q m \<sigma>') = Search_of c \<sigma>')"
proof -
  from assms have lt: "a < fresh \<sigma>"
    and sp: "\<And>q. search (dbs \<sigma> a) = Some q \<Longrightarrow> q < fresh \<sigma>"
    by (simp_all add: allocated_def)
  let ?c = "clone_addr \<sigma>"
  let ?p = "Suc (Suc (fresh \<sigma>))"
  let ?\<sigma>' = "mutate_search ?p (call_search k)
            (SetValue ?c (call_value k (dbValue (dbs \<sigma> a))) (cloned a \<sigma>))"
  have ne: "?c \<noteq> a"
    using lt by (simp add: clone_addr_def)
  have r: "do_call k a \<sigma> = Some (Some ?c, ?\<sigma>')"
    by (rule do_call_eq)
  have own: "dbs ?\<sigma>' a = dbs \<sigma> a"
    using ne by (simp add: mutate_search_def SetValue_def cloned_simps)
  have cl: "dbs ?\<sigma>' ?c = (clone_db a \<sigma>)\<lparr>dbValue := call_value k (dbValue (dbs \<sigma> a))\<rparr>"
    by (simp add: mutate_search_def SetValue_def cloned_simps)
  have se: "searches ?\<sigma>' = (searches \<sigma>)(?p := call_search k ((clone_search a \<sigma>)\<lparr>sdb := Some ?c\<rparr>))"
    by (simp add: mutate_search_def SetValue_def cloned_simps)
  have so: "Search_of a ?\<sigma>' = Search_of a \<sigma>"
    using sp by (cases "search (dbs \<sigma> a)") (auto simp: Search_of_def own se)
  have iso1: "\<forall>m. Search_of a (mutate_search ?p m ?\<sigma>') = Search_of a \<sigma>"
    using sp ne
    by (cases "search (dbs \<sigma> a)")
       (auto simp: Search_of_def mutate_search_def SetValue_def cloned_simps)
  have iso2: "\<forall>q m. search (dbs \<sigma> a) = Some q \<longrightarrow>
                  Search_of ?c (mutate_search q m ?\<sigma>') = Search_of ?c ?\<sigma>'"
    using sp
    by (auto simp: Search_of_def mutate_search_def SetValue_def cloned_simps clone_db_search)
  have di: "dialects ?\<sigma>' = (dialects \<sigma>)(fresh \<sigma> :=
          \<lparr>dname = dname (dialects \<sigma> (dialect (dbs \<sigma> a))), ddb = db (dbs \<sigma> a)\<rparr>)"
    by (simp add: mutate_search_def SetValue_def cloned_simps)
  show ?thesis
    apply (rule exI [of _ ?c], rule exI [of _ ?p], rule exI [of _ ?\<sigma>'])
    apply (intro conjI)
                 apply (rule r)
                apply (simp add: clone_addr_def)
               apply simp
              apply (simp add: cl clone_db_def Let_def)
             apply (simp add: se)
            apply (simp add: cl)
           apply (simp add: cl clone_db_def Let_def)
          apply (simp add: cl clone_db_def Let_def)
         apply (simp add: cl clone_db_def Let_def)
        apply (simp add: cl di clone_db_def Let_def)
       apply (rule own)
      apply (rule so)
     apply (rule iso1)
    apply (rule iso2)
    done
qed


theorem condition_builders_clone_witness:
  "allocated 0 opened \<and>
   (\<exists>c p \<sigma>'. do_call (CWhere (VStr ''age > ?'') [VInt 30]) 0 opened = Some (Some c, \<sigma>') \<and>
      search (dbs \<sigma>' c) = Some p \<and>
      conds (searches \<sigma>' p) = [(KWhere, VStr ''age > ?'', [VInt 30])] \<and>
      Search_of 0 \<sigma>' = None)"
proof -
  have al: "allocated 0 opened"
    by (simp add: allocated_def opened_def root_def)
  have e: "clone_search 0 opened = emptySearch" "Search_of 0 opened = None"
    by (simp_all add: clone_search_def Search_of_def opened_def root_def)
  from condition_builders_clone [OF al, of "CWhere (VStr ''age > ?'') [VInt 30]"]
  obtain c p \<sigma>' where
    "do_call (CWhere (VStr ''age > ?'') [VInt 30]) 0 opened = Some (Some c, \<sigma>')"
    "search (dbs \<sigma>' c) = Some p"
    "searches \<sigma>' p = call_search (CWhere (VStr ''age > ?'') [VInt 30])
        ((clone_search 0 opened)\<lparr>sdb := Some c\<rparr>)"
    "Search_of 0 \<sigma>' = Search_of 0 opened"
    by blast
  with al e show ?thesis
    by (simp add: Search_Where_def emptySearch_def)
qed

text \<open>
  Claim C1 as stated has the clone share the receiver's dialect by reference. On the
  opened store \<open>Where\<close> returns handle 4, whose dialect is the new object 1, not the
  root's dialect 0.
\<close>

theorem clone_dialect_is_new:
  "fst (the (do_call (CWhere (VStr ''age > ?'') [VInt 30]) 0 opened)) = Some 4 \<and>
   dialect (dbs (snd (the (do_call (CWhere (VStr ''age > ?'') [VInt 30]) 0 opened))) 4) = 1 \<and>
   dialect (dbs opened 0) = 0 \<and>
   dialect (dbs (snd (the (do_call (CWhere (VStr ''age > ?'') [VInt 30]) 0 opened))) 4)
     \<noteq> dialect (dbs opened 0)"
proof -
  have c: "clone_addr opened = 4" "fresh opened = 1"
    by (simp_all add: clone_addr_def opened_def)
  have r: "dialect (dbs opened 0) = 0"
    by (simp add: opened_def root_def)
  show ?thesis
    unfolding do_call_eq [of "CWhere (VStr ''age > ?'') [VInt 30]" 0 opened]
    by (simp add: mutate_search_def SetValue_def cloned_simps clone_db_def Let_def c r)
qed

section \<open>Transactions: proofs\<close>

lemma conn_calls_append: "conn_calls (xs @ ys) = conn_calls xs @ conn_calls ys"
  by (induction xs rule: conn_calls.induct) simp_all

lemma AddError_txDone: "txDone (snd (AddError a eo \<sigma>)) = txDone \<sigma>"
  by (simp add: AddError_def Let_def SetError_def Print_db_def Log_def split: option.splits)

lemma AddError_conn_calls: "conn_calls (trace (snd (AddError a eo \<sigma>))) = conn_calls (trace \<sigma>)"
  by (cases eo) (simp_all add: AddError_trace conn_calls_append, simp add: AddError_def)

lemma Commit_not_tx:
  assumes "\<forall>t. db (dbs \<sigma> a) \<noteq> ConnTx t"
  shows "Commit a \<sigma> = (a, snd (AddError a (Some ErrInvalidTransaction) \<sigma>))"
  using assms by (cases "db (dbs \<sigma> a)") (simp_all add: Commit_def)

lemma Rollback_not_tx:
  assumes "\<forall>t. db (dbs \<sigma> a) \<noteq> ConnTx t"
  shows "Rollback a \<sigma> = (a, snd (AddError a (Some ErrInvalidTransaction) \<sigma>))"
  using assms by (cases "db (dbs \<sigma> a)") (simp_all add: Rollback_def)

text \<open>
  Claim C2, as amended. If the handle's connection is not a non-nil transaction handle (a
  nil interface, a \<open>*sql.DB\<close>, the nil \<open>*sql.Tx\<close> a failed \<open>Begin\<close> leaves, or a
  connection without \<open>Commit\<close>), then \<open>Commit\<close> returns the receiver, makes no call on
  the underlying connection, finishes no transaction, and adds the invalid-transaction
  error to the handle's error set (once); \<open>Rollback\<close> does the same. The functions are
  total: no branch of them fails.
\<close>

theorem transaction_guard:
  assumes "\<forall>t. db (dbs \<sigma> a) \<noteq> ConnTx t"
  shows "fst (Commit a \<sigma>) = a \<and>
         conn_calls (trace (snd (Commit a \<sigma>))) = conn_calls (trace \<sigma>) \<and>
         txDone (snd (Commit a \<sigma>)) = txDone \<sigma> \<and>
         GetErrors (dbs (snd (Commit a \<sigma>)) a) =
           (if ErrInvalidTransaction \<in> set (GetErrors (dbs \<sigma> a)) then GetErrors (dbs \<sigma> a)
            else GetErrors (dbs \<sigma> a) @ [ErrInvalidTransaction]) \<and>
         err (dbs (snd (Commit a \<sigma>)) a) \<noteq> None \<and>
         Rollback a \<sigma> = Commit a \<sigma>"
proof -
  have s: "single ErrInvalidTransaction"
    by (simp add: single_def)
  have n: "ErrInvalidTransaction \<noteq> ErrRecordNotFound"
    by simp
  note c = Commit_not_tx [OF assms]
  have e: "err (dbs (snd (AddError a (Some ErrInvalidTransaction) \<sigma>)) a) \<noteq> None"
    by (simp add: AddError_err)
  show ?thesis
    using e by (simp add: c Rollback_not_tx [OF assms] AddError_conn_calls AddError_txDone
        AddError_GetErrors [OF s n] Errors_Add_def)
qed

theorem transaction_guard_witness:
  "(\<forall>t. db (dbs opened 0) \<noteq> ConnTx t) \<and>
   err (dbs (snd (Commit 0 opened)) 0) = Some ErrInvalidTransaction \<and>
   conn_calls (trace (snd (Commit 0 opened))) = []"
proof -
  have h: "\<forall>t. db (dbs opened 0) \<noteq> ConnTx t"
    by (simp add: opened_def root_def)
  have g: "GetErrors (dbs opened 0) = []" "trace opened = []"
    by (simp_all add: GetErrors_def opened_def root_def)
  from transaction_guard [OF h] g have
    "GetErrors (dbs (snd (Commit 0 opened)) 0) = [ErrInvalidTransaction]"
    "conn_calls (trace (snd (Commit 0 opened))) = []"
    by simp_all
  moreover have "err (dbs (snd (Commit 0 opened)) 0) = Some ErrInvalidTransaction"
    using h by (simp add: Commit_not_tx AddError_err Errors_Add_def g)
  ultimately show ?thesis
    using h by simp
qed

lemma begun_facts:
  "db (dbs begun 4) = ConnTx 5" "txDone begun = []" "trace begun = [DbBegin 0]"
  "err (dbs begun 4) = None" "logMode (dbs begun 4) = 0" "logger (dbs begun 4) = 0"
  by (simp_all add: begun_def Begin_def Clone_eq cloned_simps clone_addr_def clone_db_def
      Let_def AddError_def opened_def root_def)

lemma committed_facts:
  "db (dbs committed 4) = ConnTx 5" "txDone committed = [5]"
  "trace committed = [DbBegin 0, TxCommit 5]"
  "err (dbs committed 4) = None" "logMode (dbs committed 4) = 0" "logger (dbs committed 4) = 0"
  by (simp_all add: committed_def Commit_def tx_Commit_def Let_def AddError_def begun_facts)

text \<open>
  Claim C2 as stated speaks of every handle whose connection is not an active transaction.
  After \<open>Begin\<close> and one \<open>Commit\<close> the transaction is finished, yet a second \<open>Commit\<close>
  passes the guard, calls the transaction again and adds its answer \<open>sql.ErrTxDone\<close>,
  not the invalid-transaction error.
\<close>

theorem commit_finished_transaction:
  "\<not> active_tx (db (dbs committed 4)) committed \<and>
   conn_calls (trace (snd (Commit 4 committed))) = conn_calls (trace committed) @ [TxCommit 5] \<and>
   err (dbs (snd (Commit 4 committed)) 4) = Some ErrTxDone \<and>
   ErrInvalidTransaction \<notin> set (GetErrors (dbs (snd (Commit 4 committed)) 4))"
  by (simp add: active_tx_def Commit_def tx_Commit_def Let_def AddError_def committed_facts
      SetError_def Print_db_def Errors_Add_def GetErrors_def)

section \<open>The registry: proofs\<close>

text \<open>
  Claim C7, as amended. For two handles with the same parent, whose registry is \<open>r\<close>:
  \<open>Callback()\<close> through the first installs a new copy \<open>r'\<close> of \<open>r\<close> on the shared parent
  and returns it. The chains run through the second handle are the same right after the
  call, but from then on they are read from \<open>r'\<close>: any change made through the returned
  pointer is the registry operations through the second handle use. Only the registry
  object installed before, \<open>r\<close>, is left as it was.
\<close>

theorem Callback_installs_on_parent:
  assumes "parent (dbs \<sigma> h1) = parent (dbs \<sigma> h2)"
    and "callbacks (dbs \<sigma> (parent (dbs \<sigma> h1))) = Some r"
    and "r < fresh \<sigma>"
  shows "\<exists>r' \<sigma>'. Callback_db h1 \<sigma> = Some (Some r', \<sigma>') \<and>
           fresh \<sigma> \<le> r' \<and>
           registries \<sigma>' r' = registries \<sigma> r \<and>
           callbacks (dbs \<sigma>' (parent (dbs \<sigma>' h2))) = Some r' \<and>
           (\<forall>k. parent_chain k h2 \<sigma>' = parent_chain k h2 \<sigma>) \<and>
           (\<forall>k f. parent_chain k h2 (mutate_registry r' f \<sigma>') =
                  Some (chain_of k (f (registries \<sigma> r)))) \<and>
           (\<forall>f. registries (mutate_registry r' f \<sigma>') r = registries \<sigma> r)"
proof -
  define p where "p = parent (dbs \<sigma> h1)"
  define r' where "r' = fresh \<sigma>"
  define \<sigma>' where "\<sigma>' = SetCallbacks p (Some r')
      (\<sigma>\<lparr>registries := (registries \<sigma>)(r' := registries \<sigma> r), fresh := Suc r'\<rparr>)"
  have par: "\<And>h. parent (dbs \<sigma>' h) = parent (dbs \<sigma> h)"
    by (simp add: \<sigma>'_def SetCallbacks_def)
  have cb: "callbacks (dbs \<sigma>' p) = Some r'"
    by (simp add: \<sigma>'_def SetCallbacks_def)
  have reg: "registries \<sigma>' = (registries \<sigma>)(r' := registries \<sigma> r)"
    by (simp add: \<sigma>'_def SetCallbacks_def)
  have p2: "parent (dbs \<sigma> h2) = p"
    using assms(1) by (simp add: p_def)
  have old_cb: "callbacks (dbs \<sigma> p) = Some r"
    using assms(2) by (simp add: p_def)
  have run: "Callback_db h1 \<sigma> = Some (Some r', \<sigma>')"
    unfolding Callback_db_def Callback_clone_def Let_def
    using old_cb par [of h1] cb
    by (simp add: p_def [symmetric] r'_def [symmetric] \<sigma>'_def [symmetric])
  have used: "callbacks (dbs \<sigma>' (parent (dbs \<sigma>' h2))) = Some r'"
    by (simp add: par p2 cb)
  have same: "\<forall>k. parent_chain k h2 \<sigma>' = parent_chain k h2 \<sigma>"
    by (simp add: parent_chain_def par p2 cb old_cb reg)
  have mut: "\<forall>k f. parent_chain k h2 (mutate_registry r' f \<sigma>') =
                  Some (chain_of k (f (registries \<sigma> r)))"
    using par [of h2] cb by (simp add: parent_chain_def mutate_registry_def p2 reg)
  have old: "\<forall>f. registries (mutate_registry r' f \<sigma>') r = registries \<sigma> r"
    using assms(3) by (simp add: mutate_registry_def reg r'_def)
  have fr: "fresh \<sigma> \<le> r'" "registries \<sigma>' r' = registries \<sigma> r"
    by (simp_all add: r'_def reg)
  from run used same mut old fr show ?thesis
    by blast
qed

lemma two_clones_facts:
  "parent (dbs two_clones 4) = 0" "parent (dbs two_clones 8) = 0"
  "callbacks (dbs two_clones 0) = Some 0" "fresh two_clones = 9"
  "registries two_clones = (\<lambda>_. DefaultCallback)"
  by (simp_all add: two_clones_def Clone_eq cloned_simps clone_addr_def clone_db_def Let_def
      opened_def root_def)

theorem Callback_installs_on_parent_witness:
  "parent (dbs two_clones 4) = parent (dbs two_clones 8) \<and>
   callbacks (dbs two_clones (parent (dbs two_clones 4))) = Some 0 \<and>
   0 < fresh two_clones \<and>
   (\<exists>r' \<sigma>'. Callback_db 4 two_clones = Some (Some r', \<sigma>') \<and>
      parent_chain Queries 8 \<sigma>' = Some [''gorm:query''] \<and>
      parent_chain Queries 8 (mutate_registry r' add_plugin \<sigma>') =
        Some [''gorm:query'', ''my_plugin''])"
proof -
  have a: "parent (dbs two_clones 4) = parent (dbs two_clones 8)"
    and b: "callbacks (dbs two_clones (parent (dbs two_clones 4))) = Some 0"
    and c: "0 < fresh two_clones"
    by (simp_all add: two_clones_facts)
  have q: "parent_chain Queries 8 two_clones = Some [''gorm:query'']"
    by (simp add: parent_chain_def two_clones_facts DefaultCallback_def)
  from Callback_installs_on_parent [OF a b c] obtain r' \<sigma>' where
    "Callback_db 4 two_clones = Some (Some r', \<sigma>')"
    "\<forall>k. parent_chain k 8 \<sigma>' = parent_chain k 8 two_clones"
    "\<forall>k f. parent_chain k 8 (mutate_registry r' f \<sigma>') =
                  Some (chain_of k (f (registries two_clones 0)))"
    by blast
  with a b c q show ?thesis
    by (simp add: two_clones_facts DefaultCallback_def add_plugin_def)
qed

text \<open>
  Claim C7 as stated: with the clones 4 and 8 of the root, registering a step through
  \<open>Callback()\<close> of handle 4 changes the query chain run through handle 8.
\<close>

theorem registry_mutation_reaches_sibling:
  "fst (the (Callback_db 4 two_clones)) = Some 9 \<and>
   parent_chain Queries 8 (snd (the (Callback_db 4 two_clones))) = Some [''gorm:query''] \<and>
   parent_chain Queries 8 (mutate_registry 9 add_plugin (snd (the (Callback_db 4 two_clones))))
     = Some [''gorm:query'', ''my_plugin''] \<and>
   parent_chain Queries 8 (mutate_registry 9 add_plugin (snd (the (Callback_db 4 two_clones))))
     \<noteq> parent_chain Queries 8 (snd (the (Callback_db 4 two_clones)))"
  by (simp add: Callback_db_def Callback_clone_def Let_def SetCallbacks_def parent_chain_def
      mutate_registry_def two_clones_facts DefaultCallback_def add_plugin_def)

section \<open>Frame facts\<close>

lemma logged_only_iff: "logged_only tr tr' \<longleftrightarrow> (\<exists>ps. tr' = tr @ ps \<and> list_all is_Print ps)"
proof
  assume "logged_only tr tr'"
  then have "tr' = tr @ drop (length tr) tr'" "list_all is_Print (drop (length tr) tr')"
    by (simp_all add: logged_only_def) (metis append_take_drop_id)
  then show "\<exists>ps. tr' = tr @ ps \<and> list_all is_Print ps"
    by blast
next
  assume "\<exists>ps. tr' = tr @ ps \<and> list_all is_Print ps"
  then show "logged_only tr tr'"
    by (auto simp: logged_only_def)
qed

lemma logged_only_refl: "logged_only tr tr"
  by (simp add: logged_only_def)

lemma logged_only_trans: "logged_only a b \<Longrightarrow> logged_only b c \<Longrightarrow> logged_only a c"
  by (auto simp: logged_only_iff)

lemma chains_run_append: "chains_run (xs @ ys) = chains_run xs @ chains_run ys"
  by (induction xs rule: chains_run.induct) simp_all

lemma schema_log_append: "schema_log (xs @ ys) = schema_log xs @ schema_log ys"
  by (induction xs rule: schema_log.induct) simp_all

lemma prints_invisible:
  "list_all is_Print ps \<Longrightarrow> chains_run ps = [] \<and> schema_log ps = [] \<and> conn_calls ps = []"
proof (induction ps)
  case Nil
  show ?case by simp
next
  case (Cons e ps)
  then show ?case by (cases e) simp_all
qed

lemma logged_only_views:
  assumes "logged_only tr tr'"
  shows "chains_run tr' = chains_run tr" "schema_log tr' = schema_log tr"
    "conn_calls tr' = conn_calls tr"
  using assms prints_invisible
  by (auto simp: logged_only_iff chains_run_append schema_log_append conn_calls_append)

lemma quiet_refl: "quiet b \<sigma> \<sigma>"
  by (simp add: quiet_def logged_only_refl)

lemma quiet_trans:
  assumes "quiet b \<sigma> \<sigma>1" "quiet b \<sigma>1 \<sigma>2"
  shows "quiet b \<sigma> \<sigma>2"
proof -
  have 1: "dbs \<sigma>2 = (dbs \<sigma>1)(b := dbs \<sigma>2 b)" and 2: "dbs \<sigma>1 = (dbs \<sigma>)(b := dbs \<sigma>1 b)"
    using assms by (simp_all add: quiet_def)
  have "dbs \<sigma>2 = (dbs \<sigma>)(b := dbs \<sigma>2 b)"
    by (subst 1, subst 2) simp
  with assms show ?thesis
    by (auto simp: quiet_def intro: logged_only_trans)
qed

lemma quiet_fields:
  assumes "quiet b \<sigma> \<sigma>'"
  shows "parent (dbs \<sigma>' h) = parent (dbs \<sigma> h)" "search (dbs \<sigma>' h) = search (dbs \<sigma> h)"
    "callbacks (dbs \<sigma>' h) = callbacks (dbs \<sigma> h)" "dbValue (dbs \<sigma>' h) = dbValue (dbs \<sigma> h)"
    "dbValues (dbs \<sigma>' h) = dbValues (dbs \<sigma> h)" "db (dbs \<sigma>' h) = db (dbs \<sigma> h)"
    "logMode (dbs \<sigma>' h) = logMode (dbs \<sigma> h)" "dialect (dbs \<sigma>' h) = dialect (dbs \<sigma> h)"
proof -
  from assms have e: "(dbs \<sigma>' b)\<lparr>err := None, rowsAffected := 0\<rparr> = (dbs \<sigma> b)\<lparr>err := None, rowsAffected := 0\<rparr>"
    and o: "dbs \<sigma>' = (dbs \<sigma>)(b := dbs \<sigma>' b)"
    by (simp_all add: quiet_def)
  have f: "h \<noteq> b \<Longrightarrow> dbs \<sigma>' h = dbs \<sigma> h"
    by (subst o) simp
  have "parent (dbs \<sigma>' b) = parent (dbs \<sigma> b)" "search (dbs \<sigma>' b) = search (dbs \<sigma> b)"
    "callbacks (dbs \<sigma>' b) = callbacks (dbs \<sigma> b)" "dbValue (dbs \<sigma>' b) = dbValue (dbs \<sigma> b)"
    "dbValues (dbs \<sigma>' b) = dbValues (dbs \<sigma> b)" "db (dbs \<sigma>' b) = db (dbs \<sigma> b)"
    "logMode (dbs \<sigma>' b) = logMode (dbs \<sigma> b)" "dialect (dbs \<sigma>' b) = dialect (dbs \<sigma> b)"
    using arg_cong [OF e, of parent] arg_cong [OF e, of search] arg_cong [OF e, of callbacks]
      arg_cong [OF e, of dbValue] arg_cong [OF e, of dbValues] arg_cong [OF e, of db]
      arg_cong [OF e, of logMode] arg_cong [OF e, of dialect]
    by simp_all
  with f show "parent (dbs \<sigma>' h) = parent (dbs \<sigma> h)" "search (dbs \<sigma>' h) = search (dbs \<sigma> h)"
    "callbacks (dbs \<sigma>' h) = callbacks (dbs \<sigma> h)" "dbValue (dbs \<sigma>' h) = dbValue (dbs \<sigma> h)"
    "dbValues (dbs \<sigma>' h) = dbValues (dbs \<sigma> h)" "db (dbs \<sigma>' h) = db (dbs \<sigma> h)"
    "logMode (dbs \<sigma>' h) = logMode (dbs \<sigma> h)" "dialect (dbs \<sigma>' h) = dialect (dbs \<sigma> h)"
    by (cases "h = b"; simp)+
qed

lemma quiet_other: "quiet b \<sigma> \<sigma>' \<Longrightarrow> h \<noteq> b \<Longrightarrow> dbs \<sigma>' h = dbs \<sigma> h"
  by (simp add: quiet_def) (metis fun_upd_other)

lemma quiet_AddError: "quiet b \<sigma> (snd (AddError b eo \<sigma>))"
  by (cases eo)
     (auto simp: quiet_def AddError_def Let_def SetError_def Print_db_def Log_def
       logged_only_def)

lemma quiet_SetRowsAffected: "quiet b \<sigma> (SetRowsAffected b n \<sigma>)"
  by (auto simp: quiet_def SetRowsAffected_def logged_only_def)

lemma quiet_run_step: "quiet (scdb sc) \<sigma> (run_step E k sc name \<sigma>)"
proof -
  obtain eo ro where s: "step E k name (trace \<sigma>) sc = (eo, ro)"
    by (cases "step E k name (trace \<sigma>) sc")
  show ?thesis
  proof (cases ro)
    case None
    with s show ?thesis
      by (simp add: run_step_def quiet_AddError)
  next
    case (Some n)
    with s show ?thesis
      by (simp add: run_step_def)
         (rule quiet_trans [OF quiet_AddError quiet_SetRowsAffected])
  qed
qed

lemma quiet_fold_steps: "quiet (scdb sc) \<sigma> (fold (run_step E k sc) names \<sigma>)"
proof (induction names arbitrary: \<sigma>)
  case Nil
  show ?case by (simp add: quiet_refl)
next
  case (Cons n names)
  show ?case
    by (simp, rule quiet_trans [OF quiet_run_step Cons.IH])
qed

lemma quiet_callCallbacks:
  "quiet (scdb sc) (emit (CallCallbacks k names sc (searches \<sigma> (scSearch sc))) \<sigma>)
     (callCallbacks E k names sc \<sigma>)"
  by (simp add: callCallbacks_def quiet_fold_steps)

lemma callCallbacks_chains:
  "chains_run (trace (callCallbacks E k names sc \<sigma>)) = chains_run (trace \<sigma>) @ [k]"
proof -
  have "logged_only (trace (emit (CallCallbacks k names sc (searches \<sigma> (scSearch sc))) \<sigma>))
          (trace (callCallbacks E k names sc \<sigma>))"
    using quiet_callCallbacks [of sc k names \<sigma> E] by (simp add: quiet_def)
  from logged_only_views(1) [OF this] show ?thesis
    by (simp add: emit_def chains_run_append)
qed

lemma quiet_schema:
  "quiet (scdb sc) (emit (SchemaOp op sc (searches \<sigma> (scSearch sc))) \<sigma>) (schema E op sc \<sigma>)"
proof -
  have "quiet b \<tau> (fold (\<lambda>e \<tau>. snd (AddError b (Some e) \<tau>)) es \<tau>)" for b es \<tau>
  proof (induction es arbitrary: \<tau>)
    case Nil
    show ?case by (simp add: quiet_refl)
  next
    case (Cons e es)
    show ?case
      by (simp, rule quiet_trans [OF quiet_AddError Cons.IH])
  qed
  then show ?thesis
    by (simp add: schema_def)
qed

lemma NewScope_eq: "NewScope a v \<sigma> = Some (new_scope v \<sigma>, scoped a v \<sigma>)"
  by (simp add: NewScope_def Clone_eq SetValue_def cloned_simps clone_db_search Let_def
      Search_clone_def new_scope_def scoped_def)

lemma scoped_simps:
  "dbs (scoped a v \<sigma>) = (dbs \<sigma>)(clone_addr \<sigma> := (clone_db a \<sigma>)\<lparr>dbValue := v\<rparr>)"
  "searches (scoped a v \<sigma>) = (searches \<sigma>)
      (Suc (Suc (fresh \<sigma>)) := (clone_search a \<sigma>)\<lparr>sdb := Some (clone_addr \<sigma>)\<rparr>,
       Suc (clone_addr \<sigma>) := (clone_search a \<sigma>)\<lparr>sdb := Some (clone_addr \<sigma>)\<rparr>)"
  "settings (scoped a v \<sigma>) = (settings \<sigma>)(Suc (fresh \<sigma>) := settings \<sigma> (dbValues (dbs \<sigma> a)))"
  "registries (scoped a v \<sigma>) = registries \<sigma>"
  "fresh (scoped a v \<sigma>) = Suc (Suc (clone_addr \<sigma>))"
  "trace (scoped a v \<sigma>) = trace \<sigma>"
  "txDone (scoped a v \<sigma>) = txDone \<sigma>"
  by (simp_all add: scoped_def SetValue_def cloned_simps Let_def)

lemma parent_chain_scoped:
  assumes "allocated a \<sigma>"
  shows "parent_chain k a (scoped b v \<sigma>) = parent_chain k a \<sigma>"
  using assms
  by (simp add: parent_chain_def scoped_simps allocated_def clone_addr_def split: option.splits)

lemma keeps_refl: "keeps \<sigma> \<sigma>"
  by (simp add: keeps_def)

lemma keeps_trans: "keeps \<sigma> \<sigma>1 \<Longrightarrow> keeps \<sigma>1 \<sigma>2 \<Longrightarrow> keeps \<sigma> \<sigma>2"
  by (auto simp: keeps_def)

lemma keeps_cloned: "keeps \<sigma> (cloned a \<sigma>)"
  by (simp add: keeps_def cloned_simps clone_addr_def)

lemma keeps_scoped: "keeps \<sigma> (scoped a v \<sigma>)"
  by (simp add: keeps_def scoped_simps clone_addr_def)

lemma keeps_quiet:
  assumes "quiet b \<sigma>1 \<sigma>2" "keeps \<sigma> \<sigma>1" "fresh \<sigma> \<le> b"
  shows "keeps \<sigma> \<sigma>2"
proof -
  have "dbs \<sigma>2 x = dbs \<sigma>1 x" if "x < fresh \<sigma>" for x
    using that assms(3) quiet_other [OF assms(1), of x] by simp
  with assms show ?thesis
    by (simp add: keeps_def quiet_def)
qed

lemma keeps_parent_chain:
  assumes "keeps \<sigma> \<sigma>'" "allocated a \<sigma>"
  shows "parent_chain k a \<sigma>' = parent_chain k a \<sigma>"
  using assms by (auto simp: keeps_def allocated_def parent_chain_def split: option.splits)

lemma keeps_allocated:
  assumes "keeps \<sigma> \<sigma>'" "allocated a \<sigma>"
  shows "allocated a \<sigma>'"
  using assms by (auto simp: keeps_def allocated_def split: option.splits)

lemma keeps_clone_search:
  assumes "keeps \<sigma> \<sigma>'" "allocated a \<sigma>"
  shows "clone_search a \<sigma>' = clone_search a \<sigma>"
  using assms by (auto simp: keeps_def allocated_def clone_search_def split: option.splits)

lemma emit_simps:
  "dbs (emit e \<sigma>) = dbs \<sigma>" "searches (emit e \<sigma>) = searches \<sigma>"
  "registries (emit e \<sigma>) = registries \<sigma>" "settings (emit e \<sigma>) = settings \<sigma>"
  "fresh (emit e \<sigma>) = fresh \<sigma>" "trace (emit e \<sigma>) = trace \<sigma> @ [e]"
  by (simp_all add: emit_def)

lemma keeps_emit: "keeps \<sigma> \<sigma>1 \<Longrightarrow> keeps \<sigma> (emit e \<sigma>1)"
  by (simp add: keeps_def emit_simps)

lemma keeps_callCallbacks:
  assumes "keeps \<sigma> \<sigma>1" "fresh \<sigma> \<le> scdb sc"
  shows "keeps \<sigma> (callCallbacks E k names sc \<sigma>1)"
  by (rule keeps_quiet [OF quiet_callCallbacks keeps_emit [OF assms(1)] assms(2)])

lemma keeps_schema:
  assumes "keeps \<sigma> \<sigma>1" "fresh \<sigma> \<le> scdb sc"
  shows "keeps \<sigma> (schema E op sc \<sigma>1)"
  by (rule keeps_quiet [OF quiet_schema keeps_emit [OF assms(1)] assms(2)])

lemma first_prepared_simps:
  "dbs (first_prepared a out ws \<sigma>) = dbs (scoped a out \<sigma>)"
  "registries (first_prepared a out ws \<sigma>) = registries \<sigma>"
  "fresh (first_prepared a out ws \<sigma>) = Suc (Suc (clone_addr \<sigma>))"
  "trace (first_prepared a out ws \<sigma>) = trace \<sigma>"
  by (simp_all add: first_prepared_def inlineCondition_def Scope_Set_def InstantSet_def
      on_scope_search_def scoped_simps Let_def split: list.splits)

lemma keeps_first_prepared: "keeps \<sigma> (first_prepared a out ws \<sigma>)"
  by (simp add: keeps_def first_prepared_def inlineCondition_def Scope_Set_def InstantSet_def
      on_scope_search_def scoped_simps new_scope_def clone_addr_def clone_db_def Let_def
      split: list.splits)

lemma First_eq:
  assumes "allocated a \<sigma>" and "callbacks (dbs \<sigma> (parent (dbs \<sigma> a))) = Some r"
  shows "First E a out ws \<sigma> =
    Some (clone_addr \<sigma>,
          callCallbacks E Queries (queries (registries \<sigma> r)) (new_scope out \<sigma>)
            (first_prepared a out ws \<sigma>))"
proof -
  have "parent_chain Queries a (first_prepared a out ws \<sigma>) = parent_chain Queries a \<sigma>"
    by (rule keeps_parent_chain [OF keeps_first_prepared assms(1)])
  also have "\<dots> = Some (queries (registries \<sigma> r))"
    using assms(2) by (simp add: parent_chain_def)
  finally show ?thesis
    by (simp add: First_def NewScope_eq first_prepared_def new_scope_def)
qed

lemma First_frame:
  assumes "allocated a \<sigma>" and "callbacks (dbs \<sigma> (parent (dbs \<sigma> a))) = Some r"
  shows "\<exists>\<sigma>2. First E a out ws \<sigma> = Some (clone_addr \<sigma>, \<sigma>2) \<and> keeps \<sigma> \<sigma>2 \<and>
           chains_run (trace \<sigma>2) = chains_run (trace \<sigma>) @ [Queries] \<and>
           schema_log (trace \<sigma>2) = schema_log (trace \<sigma>)"
proof -
  let ?sc = "new_scope out \<sigma>"
  let ?\<sigma>2 = "callCallbacks E Queries (queries (registries \<sigma> r)) ?sc (first_prepared a out ws \<sigma>)"
  have k: "keeps \<sigma> ?\<sigma>2"
    by (rule keeps_callCallbacks [OF keeps_first_prepared]) (simp add: new_scope_def clone_addr_def)
  have c: "chains_run (trace ?\<sigma>2) = chains_run (trace \<sigma>) @ [Queries]"
    by (simp add: callCallbacks_chains first_prepared_simps)
  have "logged_only (trace (emit (CallCallbacks Queries (queries (registries \<sigma> r)) ?sc
            (searches (first_prepared a out ws \<sigma>) (scSearch ?sc))) (first_prepared a out ws \<sigma>)))
          (trace ?\<sigma>2)"
    using quiet_callCallbacks [of ?sc Queries _ "first_prepared a out ws \<sigma>" E]
    by (simp add: quiet_def)
  from logged_only_views(2) [OF this]
  have s: "schema_log (trace ?\<sigma>2) = schema_log (trace \<sigma>)"
    by (simp add: emit_simps schema_log_append first_prepared_simps)
  from First_eq [OF assms] k c s show ?thesis
    by blast
qed

section \<open>Save\<close>

text \<open>
  Claim C3, as amended. \<open>Save\<close> builds one scope on the value. If the primary key is
  blank it runs the create chain on it and returns the scope's handle. Otherwise it runs
  the update chain; if after it the scope's handle has no error and a rows-affected count
  of zero, the result is \<open>FirstOrCreate\<close> on the value through a \<open>New\<close> handle of the
  receiver; in every other case (an error, or a count other than zero) the result is the
  scope's handle and no further chain runs.
\<close>

theorem Save_branches:
  assumes "allocated a \<sigma>" and "callbacks (dbs \<sigma> (parent (dbs \<sigma> a))) = Some r"
  shows "\<exists>sc \<sigma>1. NewScope a v \<sigma> = Some (sc, \<sigma>1) \<and> scValue sc = v \<and> fresh \<sigma> \<le> scdb sc \<and>
     (PrimaryKeyZero E v \<longrightarrow>
        Save E a v \<sigma> = Some (scdb sc, callCallbacks E Creates (creates (registries \<sigma> r)) sc \<sigma>1) \<and>
        chains_run (trace (callCallbacks E Creates (creates (registries \<sigma> r)) sc \<sigma>1)) =
          chains_run (trace \<sigma>) @ [Creates]) \<and>
     (\<not> PrimaryKeyZero E v \<longrightarrow>
        (\<exists>\<sigma>2. \<sigma>2 = callCallbacks E Updates (updates (registries \<sigma> r)) sc \<sigma>1 \<and>
           chains_run (trace \<sigma>2) = chains_run (trace \<sigma>) @ [Updates] \<and>
           (err (dbs \<sigma>2 (scdb sc)) = None \<and> rowsAffected (dbs \<sigma>2 (scdb sc)) = 0 \<longrightarrow>
              Save E a v \<sigma> = FirstOrCreate E (fst (New a \<sigma>2)) v [] (snd (New a \<sigma>2))) \<and>
           (err (dbs \<sigma>2 (scdb sc)) \<noteq> None \<or> rowsAffected (dbs \<sigma>2 (scdb sc)) \<noteq> 0 \<longrightarrow>
              Save E a v \<sigma> = Some (scdb sc, \<sigma>2))))"
proof -
  let ?sc = "new_scope v \<sigma>"
  let ?\<sigma>1 = "scoped a v \<sigma>"
  have pc: "parent_chain k a ?\<sigma>1 = Some (chain_of k (registries \<sigma> r))" for k
  proof -
    have "parent_chain k a ?\<sigma>1 = parent_chain k a \<sigma>"
      by (rule parent_chain_scoped [OF assms(1)])
    also have "\<dots> = Some (chain_of k (registries \<sigma> r))"
      using assms(2) by (simp add: parent_chain_def)
    finally show ?thesis .
  qed
  have sc: "scValue ?sc = v" "scdb ?sc = clone_addr \<sigma>" "fresh \<sigma> \<le> scdb ?sc"
    by (simp_all add: new_scope_def clone_addr_def)
  have cr: "PrimaryKeyZero E v \<Longrightarrow>
      Save E a v \<sigma> = Some (scdb ?sc, callCallbacks E Creates (creates (registries \<sigma> r)) ?sc ?\<sigma>1)"
    by (simp add: Save_def NewScope_eq pc sc)
  have up1: "\<not> PrimaryKeyZero E v \<Longrightarrow>
      err (dbs (callCallbacks E Updates (updates (registries \<sigma> r)) ?sc ?\<sigma>1) (scdb ?sc)) = None \<and>
      rowsAffected (dbs (callCallbacks E Updates (updates (registries \<sigma> r)) ?sc ?\<sigma>1) (scdb ?sc)) = 0 \<Longrightarrow>
      Save E a v \<sigma> =
        FirstOrCreate E (fst (New a (callCallbacks E Updates (updates (registries \<sigma> r)) ?sc ?\<sigma>1))) v []
          (snd (New a (callCallbacks E Updates (updates (registries \<sigma> r)) ?sc ?\<sigma>1)))"
    by (simp add: Save_def NewScope_eq pc sc Let_def split: prod.splits)
  have up2: "\<not> PrimaryKeyZero E v \<Longrightarrow>
      err (dbs (callCallbacks E Updates (updates (registries \<sigma> r)) ?sc ?\<sigma>1) (scdb ?sc)) \<noteq> None \<or>
      rowsAffected (dbs (callCallbacks E Updates (updates (registries \<sigma> r)) ?sc ?\<sigma>1) (scdb ?sc)) \<noteq> 0 \<Longrightarrow>
      Save E a v \<sigma> = Some (scdb ?sc, callCallbacks E Updates (updates (registries \<sigma> r)) ?sc ?\<sigma>1)"
    by (auto simp: Save_def NewScope_eq pc sc Let_def)
  have ch: "chains_run (trace (callCallbacks E k names ?sc ?\<sigma>1)) = chains_run (trace \<sigma>) @ [k]"
    for k names
    by (simp add: callCallbacks_chains scoped_simps)
  show ?thesis
    apply (rule exI [of _ ?sc], rule exI [of _ ?\<sigma>1])
    apply (intro conjI impI)
         apply (rule NewScope_eq)
        apply (rule sc)
       apply (rule sc)
      apply (erule cr)
     apply (rule ch)
    apply (rule exI [of _ "callCallbacks E Updates (updates (registries \<sigma> r)) ?sc ?\<sigma>1"])
    apply (intro conjI impI)
       apply (rule refl)
      apply (rule ch)
     apply (erule (1) up1)
    apply (erule (1) up2)
    done
qed

lemma opened_facts:
  "allocated 0 opened" "callbacks (dbs opened (parent (dbs opened 0))) = Some 0"
  "registries opened 0 = DefaultCallback" "trace opened = []" "fresh opened = 1"
  "dbs opened 0 = root"
  by (simp_all add: allocated_def opened_def root_def)

theorem Save_branches_witness:
  "allocated 0 opened \<and> callbacks (dbs opened (parent (dbs opened 0))) = Some 0 \<and>
   PrimaryKeyZero empty_table VNil \<and>
   (\<exists>c \<sigma>'. Save empty_table 0 VNil opened = Some (c, \<sigma>') \<and> chains_run (trace \<sigma>') = [Creates])"
proof -
  have z: "PrimaryKeyZero empty_table VNil"
    by (simp add: empty_table_def)
  from Save_branches [OF opened_facts(1,2), of VNil empty_table] z
  show ?thesis
    by (auto simp: opened_facts(1-5))
qed

section \<open>FirstOrInit and FirstOrCreate\<close>

lemma allocated_clone:
  assumes "allocated a \<sigma>"
  shows "allocated (clone_addr \<sigma>) (cloned a \<sigma>)"
  using assms
  by (simp add: allocated_def cloned_simps clone_db_def clone_addr_def Let_def)

lemma clone_registry:
  assumes "allocated a \<sigma>" "callbacks (dbs \<sigma> (parent (dbs \<sigma> a))) = Some r"
  shows "callbacks (dbs (cloned a \<sigma>) (parent (dbs (cloned a \<sigma>) (clone_addr \<sigma>)))) = Some r"
    "callbacks (dbs (cloned a \<sigma>) (parent (dbs (cloned a \<sigma>) a))) = Some r"
  using assms
  by (simp_all add: allocated_def cloned_simps clone_db_def clone_addr_def Let_def)

lemma clone_search_clone:
  "clone_search (clone_addr \<sigma>) (cloned a \<sigma>) = (clone_search a \<sigma>)\<lparr>sdb := Some (clone_addr \<sigma>)\<rparr>"
  by (simp add: clone_search_def [of "clone_addr \<sigma>"] cloned_simps clone_db_search)

lemma scope_search:
  "searches (scoped b v \<tau>) (scSearch (new_scope v \<tau>)) =
     (clone_search b \<tau>)\<lparr>sdb := Some (clone_addr \<tau>)\<rparr>"
  by (simp add: scoped_simps new_scope_def)

lemma inline_seeded:
  "seeded S0 ws (searches (inlineCondition ws (new_scope v \<tau>) (scoped b v \<tau>))
      (scSearch (new_scope v \<tau>))) \<longleftrightarrow> seeded S0 [] (clone_search b \<tau>)"
  by (cases ws)
     (simp_all add: inlineCondition_def on_scope_search_def scope_search seeded_def
       inline_conds_def Search_Where_def)

lemma inline_trace: "trace (inlineCondition ws sc \<tau>) = trace \<tau>"
  by (cases ws) (simp_all add: inlineCondition_def on_scope_search_def)

lemma inline_keeps:
  assumes "keeps \<sigma> \<tau>" "fresh \<sigma> \<le> scSearch sc"
  shows "keeps \<sigma> (inlineCondition ws sc \<tau>)"
  using assms
  by (cases ws) (simp_all add: inlineCondition_def on_scope_search_def keeps_def)

lemma FirstOrInit_cases:
  assumes al: "allocated a \<sigma>" and reg: "callbacks (dbs \<sigma> (parent (dbs \<sigma> a))) = Some r"
  shows "\<exists>c \<sigma>1 res \<sigma>2. Clone a \<sigma> = (c, \<sigma>1) \<and> First E c out ws \<sigma>1 = Some (res, \<sigma>2) \<and>
      chains_run (trace \<sigma>2) = chains_run (trace \<sigma>) @ [Queries] \<and>
      (err (dbs \<sigma>2 res) \<noteq> None \<and> \<not> RecordNotFound (dbs \<sigma>2 res) \<longrightarrow>
         FirstOrInit E a out ws \<sigma> = Some (res, \<sigma>2)) \<and>
      (err (dbs \<sigma>2 res) \<noteq> None \<and> RecordNotFound (dbs \<sigma>2 res) \<longrightarrow>
         (\<exists>sc S \<sigma>'. FirstOrInit E a out ws \<sigma> = Some (c, \<sigma>') \<and>
            trace \<sigma>' = trace \<sigma>2 @ [Initialize sc S] \<and> scValue sc = out \<and>
            seeded (clone_search a \<sigma>) ws S)) \<and>
      (err (dbs \<sigma>2 res) = None \<longrightarrow>
         (\<exists>sc \<sigma>'. FirstOrInit E a out ws \<sigma> = Some (c, \<sigma>') \<and>
            trace \<sigma>' = trace \<sigma>2 @ [UpdatedAttrsWithValues sc (assignAttrs (clone_search a \<sigma>))] \<and>
            scValue sc = out))"
proof -
  define c where "c = clone_addr \<sigma>"
  define \<sigma>1 where "\<sigma>1 = cloned a \<sigma>"
  have cl: "Clone a \<sigma> = (c, \<sigma>1)"
    by (simp add: Clone_eq c_def \<sigma>1_def)
  have alc: "allocated c \<sigma>1"
    unfolding c_def \<sigma>1_def by (rule allocated_clone [OF al])
  have regc: "callbacks (dbs \<sigma>1 (parent (dbs \<sigma>1 c))) = Some r"
    unfolding c_def \<sigma>1_def by (rule clone_registry(1) [OF al reg])
  from First_frame [OF alc regc, of E out ws] obtain \<sigma>2 where
    f: "First E c out ws \<sigma>1 = Some (clone_addr \<sigma>1, \<sigma>2)" and k: "keeps \<sigma>1 \<sigma>2"
    and ch: "chains_run (trace \<sigma>2) = chains_run (trace \<sigma>1) @ [Queries]"
    by blast
  define res where "res = clone_addr \<sigma>1"
  have tr1: "trace \<sigma>1 = trace \<sigma>"
    by (simp add: \<sigma>1_def cloned_simps)
  have cs: "clone_search c \<sigma>2 = (clone_search a \<sigma>)\<lparr>sdb := Some c\<rparr>"
    using keeps_clone_search [OF k alc] by (simp add: c_def \<sigma>1_def clone_search_clone)
  have ns: "NewScope c out \<sigma>2 = Some (new_scope out \<sigma>2, scoped c out \<sigma>2)"
    by (rule NewScope_eq)
  have sv: "scValue (new_scope out \<sigma>2) = out"
    by (simp add: new_scope_def)
  have c_lt: "c < fresh \<sigma>2"
    using alc k by (simp add: allocated_def keeps_def)
  have dbc: "dbs (scoped c out \<sigma>2) c = dbs \<sigma>1 c"
    using c_lt alc k by (simp add: scoped_simps clone_addr_def keeps_def allocated_def)
  have sp: "search (dbs \<sigma>1 c) = Some (Suc (Suc (fresh \<sigma>)))"
    by (simp add: \<sigma>1_def c_def cloned_simps clone_db_search)
  have p_lt: "Suc (Suc (fresh \<sigma>)) < fresh \<sigma>1"
    by (simp add: \<sigma>1_def cloned_simps clone_addr_def)
  have sep: "searches (scoped c out \<sigma>2) (Suc (Suc (fresh \<sigma>))) = (clone_search a \<sigma>)\<lparr>sdb := Some c\<rparr>"
    using p_lt k
    by (simp add: scoped_simps clone_addr_def keeps_def)
       (simp add: \<sigma>1_def c_def cloned_simps)
  have i: "err (dbs \<sigma>2 res) \<noteq> None \<and> \<not> RecordNotFound (dbs \<sigma>2 res) \<longrightarrow>
         FirstOrInit E a out ws \<sigma> = Some (res, \<sigma>2)"
    by (simp add: FirstOrInit_def cl f res_def)
  have ii: "err (dbs \<sigma>2 res) \<noteq> None \<and> RecordNotFound (dbs \<sigma>2 res) \<longrightarrow>
         (\<exists>sc S \<sigma>'. FirstOrInit E a out ws \<sigma> = Some (c, \<sigma>') \<and>
            trace \<sigma>' = trace \<sigma>2 @ [Initialize sc S] \<and> scValue sc = out \<and>
            seeded (clone_search a \<sigma>) ws S)"
  proof
    assume h: "err (dbs \<sigma>2 res) \<noteq> None \<and> RecordNotFound (dbs \<sigma>2 res)"
    let ?sc = "new_scope out \<sigma>2"
    let ?\<sigma>4 = "inlineCondition ws ?sc (scoped c out \<sigma>2)"
    have r: "FirstOrInit E a out ws \<sigma> = Some (c, initialize ?sc ?\<sigma>4)"
      using h by (simp add: FirstOrInit_def cl f res_def ns)
    have t: "trace (initialize ?sc ?\<sigma>4) = trace \<sigma>2 @ [Initialize ?sc (searches ?\<sigma>4 (scSearch ?sc))]"
      by (simp add: initialize_def emit_simps inline_trace scoped_simps)
    have s: "seeded (clone_search a \<sigma>) ws (searches ?\<sigma>4 (scSearch ?sc))"
      by (simp add: inline_seeded cs) (simp add: seeded_def inline_conds_def)
    from r t s sv show "\<exists>sc S \<sigma>'. FirstOrInit E a out ws \<sigma> = Some (c, \<sigma>') \<and>
            trace \<sigma>' = trace \<sigma>2 @ [Initialize sc S] \<and> scValue sc = out \<and>
            seeded (clone_search a \<sigma>) ws S"
      by blast
  qed
  have iii: "err (dbs \<sigma>2 res) = None \<longrightarrow>
         (\<exists>sc \<sigma>'. FirstOrInit E a out ws \<sigma> = Some (c, \<sigma>') \<and>
            trace \<sigma>' = trace \<sigma>2 @ [UpdatedAttrsWithValues sc (assignAttrs (clone_search a \<sigma>))] \<and>
            scValue sc = out)"
  proof
    assume h: "err (dbs \<sigma>2 res) = None"
    let ?sc = "new_scope out \<sigma>2"
    have r: "FirstOrInit E a out ws \<sigma> =
        Some (c, updatedAttrsWithValues (assignAttrs (clone_search a \<sigma>)) ?sc (scoped c out \<sigma>2))"
      using h by (simp add: FirstOrInit_def cl f res_def ns dbc sp sep)
    have t: "trace (updatedAttrsWithValues (assignAttrs (clone_search a \<sigma>)) ?sc (scoped c out \<sigma>2)) =
        trace \<sigma>2 @ [UpdatedAttrsWithValues ?sc (assignAttrs (clone_search a \<sigma>))]"
      by (simp add: updatedAttrsWithValues_def emit_simps scoped_simps)
    from r t sv show "\<exists>sc \<sigma>'. FirstOrInit E a out ws \<sigma> = Some (c, \<sigma>') \<and>
            trace \<sigma>' = trace \<sigma>2 @ [UpdatedAttrsWithValues sc (assignAttrs (clone_search a \<sigma>))] \<and>
            scValue sc = out"
      by blast
  qed
  have ch': "chains_run (trace \<sigma>2) = chains_run (trace \<sigma>) @ [Queries]"
    using ch by (simp add: tr1)
  have f': "First E c out ws \<sigma>1 = Some (res, \<sigma>2)"
    using f by (simp add: res_def)
  show ?thesis
    apply (rule exI [of _ c], rule exI [of _ \<sigma>1], rule exI [of _ res], rule exI [of _ \<sigma>2])
    apply (intro conjI)
         apply (rule cl)
        apply (rule f')
       apply (rule ch')
      apply (rule i)
     apply (rule ii)
    apply (rule iii)
    done
qed

lemma callCallbacks_logged:
  "logged_only (trace \<tau> @ [CallCallbacks k names sc (searches \<tau> (scSearch sc))])
     (trace (callCallbacks E k names sc \<tau>))"
  using quiet_callCallbacks [of sc k names \<tau> E] by (simp add: quiet_def emit_simps)

lemma FirstOrCreate_cases:
  assumes al: "allocated a \<sigma>" and reg: "callbacks (dbs \<sigma> (parent (dbs \<sigma> a))) = Some r"
  shows "\<exists>c \<sigma>1 res \<sigma>2. Clone a \<sigma> = (c, \<sigma>1) \<and> First E a out ws \<sigma>1 = Some (res, \<sigma>2) \<and>
      chains_run (trace \<sigma>2) = chains_run (trace \<sigma>) @ [Queries] \<and>
      (err (dbs \<sigma>2 res) \<noteq> None \<and> \<not> RecordNotFound (dbs \<sigma>2 res) \<longrightarrow>
         FirstOrCreate E a out ws \<sigma> = Some (res, \<sigma>2)) \<and>
      (err (dbs \<sigma>2 res) \<noteq> None \<and> RecordNotFound (dbs \<sigma>2 res) \<longrightarrow>
         (\<exists>sc S \<sigma>'. FirstOrCreate E a out ws \<sigma> = Some (scdb sc, \<sigma>') \<and>
            logged_only (trace \<sigma>2 @ [Initialize sc S,
                CallCallbacks Creates (creates (registries \<sigma> r)) sc S]) (trace \<sigma>') \<and>
            scValue sc = out \<and> seeded (clone_search a \<sigma>) ws S)) \<and>
      (err (dbs \<sigma>2 res) = None \<and> assignAttrs (clone_search a \<sigma>) \<noteq> [] \<longrightarrow>
         (\<exists>sc S \<sigma>'. FirstOrCreate E a out ws \<sigma> = Some (scdb sc, \<sigma>') \<and>
            logged_only (trace \<sigma>2 @ [CallCallbacks Updates (updates (registries \<sigma> r)) sc S])
              (trace \<sigma>') \<and>
            scValue sc = out \<and>
            scInstance sc = [(''gorm:update_interface'', VMap (assignAttrs (clone_search a \<sigma>)))])) \<and>
      (err (dbs \<sigma>2 res) = None \<and> assignAttrs (clone_search a \<sigma>) = [] \<longrightarrow>
         FirstOrCreate E a out ws \<sigma> = Some (c, \<sigma>2))"
proof -
  define c where "c = clone_addr \<sigma>"
  define \<sigma>1 where "\<sigma>1 = cloned a \<sigma>"
  have cl: "Clone a \<sigma> = (c, \<sigma>1)"
    by (simp add: Clone_eq c_def \<sigma>1_def)
  have alc: "allocated c \<sigma>1"
    unfolding c_def \<sigma>1_def by (rule allocated_clone [OF al])
  have ala: "allocated a \<sigma>1"
    unfolding \<sigma>1_def by (rule keeps_allocated [OF keeps_cloned al])
  have rega: "callbacks (dbs \<sigma>1 (parent (dbs \<sigma>1 a))) = Some r"
    unfolding \<sigma>1_def by (rule clone_registry(2) [OF al reg])
  have regc: "callbacks (dbs \<sigma>1 (parent (dbs \<sigma>1 c))) = Some r"
    unfolding c_def \<sigma>1_def by (rule clone_registry(1) [OF al reg])
  have regs: "registries \<sigma>1 = registries \<sigma>"
    by (simp add: \<sigma>1_def cloned_simps)
  from First_frame [OF ala rega, of E out ws] obtain \<sigma>2 where
    f: "First E a out ws \<sigma>1 = Some (clone_addr \<sigma>1, \<sigma>2)" and k: "keeps \<sigma>1 \<sigma>2"
    and ch: "chains_run (trace \<sigma>2) = chains_run (trace \<sigma>1) @ [Queries]"
    by blast
  define res where "res = clone_addr \<sigma>1"
  have tr1: "trace \<sigma>1 = trace \<sigma>"
    by (simp add: \<sigma>1_def cloned_simps)
  have cs: "clone_search c \<sigma>2 = (clone_search a \<sigma>)\<lparr>sdb := Some c\<rparr>"
    using keeps_clone_search [OF k alc] by (simp add: c_def \<sigma>1_def clone_search_clone)
  have ns: "NewScope c out \<sigma>2 = Some (new_scope out \<sigma>2, scoped c out \<sigma>2)"
    by (rule NewScope_eq)
  have sv: "scValue (new_scope out \<sigma>2) = out"
    by (simp add: new_scope_def)
  have c_lt: "c < fresh \<sigma>1"
    using alc by (simp add: allocated_def)
  have sp: "search (dbs \<sigma>1 c) = Some (Suc (Suc (fresh \<sigma>)))"
    by (simp add: \<sigma>1_def c_def cloned_simps clone_db_search)
  have p_lt: "Suc (Suc (fresh \<sigma>)) < fresh \<sigma>1"
    by (simp add: \<sigma>1_def cloned_simps clone_addr_def)
  have s1: "searches \<sigma>1 (Suc (Suc (fresh \<sigma>))) = (clone_search a \<sigma>)\<lparr>sdb := Some c\<rparr>"
    by (simp add: \<sigma>1_def c_def cloned_simps)
  have db2: "dbs \<sigma>2 c = dbs \<sigma>1 c" and se2: "searches \<sigma>2 (Suc (Suc (fresh \<sigma>))) = searches \<sigma>1 (Suc (Suc (fresh \<sigma>)))"
    using k c_lt p_lt by (simp_all add: keeps_def)
  have ks: "keeps \<sigma>1 (scoped c out \<sigma>2)"
    by (rule keeps_trans [OF k keeps_scoped])
  have db3: "dbs (scoped c out \<sigma>2) c = dbs \<sigma>1 c"
    and se3: "searches (scoped c out \<sigma>2) (Suc (Suc (fresh \<sigma>))) = searches \<sigma>1 (Suc (Suc (fresh \<sigma>)))"
    using ks c_lt p_lt by (simp_all add: keeps_def)
  have scs: "fresh \<sigma>1 \<le> scSearch (new_scope out \<sigma>2)" "fresh \<sigma>1 \<le> scdb (new_scope out \<sigma>2)"
    using k by (simp_all add: new_scope_def clone_addr_def keeps_def)
  have pc: "keeps \<sigma>1 \<tau> \<Longrightarrow> parent_chain kd c \<tau> = Some (chain_of kd (registries \<sigma> r))" for \<tau> kd
  proof -
    assume "keeps \<sigma>1 \<tau>"
    then have "parent_chain kd c \<tau> = parent_chain kd c \<sigma>1"
      by (rule keeps_parent_chain [OF _ alc])
    also have "\<dots> = Some (chain_of kd (registries \<sigma> r))"
      using regc by (simp add: parent_chain_def regs)
    finally show ?thesis .
  qed
  have i: "err (dbs \<sigma>2 res) \<noteq> None \<and> \<not> RecordNotFound (dbs \<sigma>2 res) \<longrightarrow>
         FirstOrCreate E a out ws \<sigma> = Some (res, \<sigma>2)"
    by (simp add: FirstOrCreate_def cl f res_def)
  have ii: "err (dbs \<sigma>2 res) \<noteq> None \<and> RecordNotFound (dbs \<sigma>2 res) \<longrightarrow>
         (\<exists>sc S \<sigma>'. FirstOrCreate E a out ws \<sigma> = Some (scdb sc, \<sigma>') \<and>
            logged_only (trace \<sigma>2 @ [Initialize sc S,
                CallCallbacks Creates (creates (registries \<sigma> r)) sc S]) (trace \<sigma>') \<and>
            scValue sc = out \<and> seeded (clone_search a \<sigma>) ws S)"
  proof
    assume h: "err (dbs \<sigma>2 res) \<noteq> None \<and> RecordNotFound (dbs \<sigma>2 res)"
    let ?sc = "new_scope out \<sigma>2"
    let ?\<sigma>3 = "inlineCondition ws ?sc (scoped c out \<sigma>2)"
    let ?\<sigma>4 = "initialize ?sc ?\<sigma>3"
    let ?S = "searches ?\<sigma>3 (scSearch ?sc)"
    let ?cs = "creates (registries \<sigma> r)"
    have k4: "keeps \<sigma>1 ?\<sigma>4"
      unfolding initialize_def by (rule keeps_emit [OF inline_keeps [OF ks scs(1)]])
    have r: "FirstOrCreate E a out ws \<sigma> = Some (scdb ?sc, callCallbacks E Creates ?cs ?sc ?\<sigma>4)"
      using h pc [OF k4, of Creates] by (simp add: FirstOrCreate_def cl f res_def ns)
    have t: "trace ?\<sigma>4 = trace \<sigma>2 @ [Initialize ?sc ?S]" "searches ?\<sigma>4 = searches ?\<sigma>3"
      by (simp_all add: initialize_def emit_simps inline_trace scoped_simps)
    have l: "logged_only (trace \<sigma>2 @ [Initialize ?sc ?S, CallCallbacks Creates ?cs ?sc ?S])
        (trace (callCallbacks E Creates ?cs ?sc ?\<sigma>4))"
      using callCallbacks_logged [of ?\<sigma>4 Creates ?cs ?sc E] by (simp add: t)
    have s: "seeded (clone_search a \<sigma>) ws ?S"
      by (simp add: inline_seeded cs) (simp add: seeded_def inline_conds_def)
    from r l s sv show "\<exists>sc S \<sigma>'. FirstOrCreate E a out ws \<sigma> = Some (scdb sc, \<sigma>') \<and>
            logged_only (trace \<sigma>2 @ [Initialize sc S,
                CallCallbacks Creates (creates (registries \<sigma> r)) sc S]) (trace \<sigma>') \<and>
            scValue sc = out \<and> seeded (clone_search a \<sigma>) ws S"
      by blast
  qed
  have iii: "err (dbs \<sigma>2 res) = None \<and> assignAttrs (clone_search a \<sigma>) \<noteq> [] \<longrightarrow>
         (\<exists>sc S \<sigma>'. FirstOrCreate E a out ws \<sigma> = Some (scdb sc, \<sigma>') \<and>
            logged_only (trace \<sigma>2 @ [CallCallbacks Updates (updates (registries \<sigma> r)) sc S])
              (trace \<sigma>') \<and>
            scValue sc = out \<and>
            scInstance sc = [(''gorm:update_interface'', VMap (assignAttrs (clone_search a \<sigma>)))])"
  proof
    assume h: "err (dbs \<sigma>2 res) = None \<and> assignAttrs (clone_search a \<sigma>) \<noteq> []"
    let ?sc = "InstanceSet ''gorm:update_interface'' (VMap (assignAttrs (clone_search a \<sigma>)))
                 (new_scope out \<sigma>2)"
    let ?\<sigma>3 = "scoped c out \<sigma>2"
    let ?us = "updates (registries \<sigma> r)"
    have r: "FirstOrCreate E a out ws \<sigma> = Some (scdb ?sc, callCallbacks E Updates ?us ?sc ?\<sigma>3)"
      using h pc [OF ks, of Updates]
      by (simp add: FirstOrCreate_def cl f res_def ns db2 db3 sp se2 se3 s1 Let_def)
    have l: "logged_only (trace \<sigma>2 @ [CallCallbacks Updates ?us ?sc (searches ?\<sigma>3 (scSearch ?sc))])
        (trace (callCallbacks E Updates ?us ?sc ?\<sigma>3))"
      using callCallbacks_logged [of ?\<sigma>3 Updates ?us ?sc E] by (simp add: scoped_simps)
    have v: "scValue ?sc = out"
      "scInstance ?sc = [(''gorm:update_interface'', VMap (assignAttrs (clone_search a \<sigma>)))]"
      by (simp_all add: InstanceSet_def new_scope_def)
    from r l v show "\<exists>sc S \<sigma>'. FirstOrCreate E a out ws \<sigma> = Some (scdb sc, \<sigma>') \<and>
            logged_only (trace \<sigma>2 @ [CallCallbacks Updates (updates (registries \<sigma> r)) sc S])
              (trace \<sigma>') \<and>
            scValue sc = out \<and>
            scInstance sc = [(''gorm:update_interface'', VMap (assignAttrs (clone_search a \<sigma>)))]"
      by blast
  qed
  have iv: "err (dbs \<sigma>2 res) = None \<and> assignAttrs (clone_search a \<sigma>) = [] \<longrightarrow>
         FirstOrCreate E a out ws \<sigma> = Some (c, \<sigma>2)"
    by (simp add: FirstOrCreate_def cl f res_def db2 sp se2 s1)
  have ch': "chains_run (trace \<sigma>2) = chains_run (trace \<sigma>) @ [Queries]"
    using ch by (simp add: tr1)
  have f': "First E a out ws \<sigma>1 = Some (res, \<sigma>2)"
    using f by (simp add: res_def)
  show ?thesis
    apply (rule exI [of _ c], rule exI [of _ \<sigma>1], rule exI [of _ res], rule exI [of _ \<sigma>2])
    apply (intro conjI)
          apply (rule cl)
         apply (rule f')
        apply (rule ch')
       apply (rule i)
      apply (rule ii)
     apply (rule iii)
    apply (rule iv)
    done
qed

text \<open>
  Claim C4, as amended. Both operations clone the receiver and run \<open>First\<close> (the query
  chain) first: \<open>FirstOrInit\<close> through the clone, \<open>FirstOrCreate\<close> through the receiver.
  What follows depends on the error the result of \<open>First\<close> carries, which includes what the
  receiver carried before.
  \<^item> If the result has an error and the sentinel is not in its error set, both return
    that result and the store \<open>First\<close> left: nothing is initialized, no other chain runs.
  \<^item> If the sentinel is in the result's error set (\<open>RecordNotFound\<close> is true of it),
    \<open>FirstOrInit\<close> returns the clone after one \<open>initialize\<close> on a scope of the value and
    nothing else; \<open>FirstOrCreate\<close> runs \<open>initialize\<close> and then the create chain on such a
    scope and returns its handle. The scope's condition set has the receiver's conditions
    followed by the inline ones, and the receiver's \<open>Attrs\<close> and \<open>Assign\<close> values.
  \<^item> If the result has no error, \<open>FirstOrInit\<close> applies the receiver's \<open>Assign\<close> values
    to the value and returns the clone; \<open>FirstOrCreate\<close> runs the update chain with these
    values as the update when there are any, and otherwise returns the clone.
\<close>

theorem FirstOrInit_FirstOrCreate:
  assumes "allocated a \<sigma>" and "callbacks (dbs \<sigma> (parent (dbs \<sigma> a))) = Some r"
  shows "(\<exists>c \<sigma>1 res \<sigma>2. Clone a \<sigma> = (c, \<sigma>1) \<and> First E c out ws \<sigma>1 = Some (res, \<sigma>2) \<and>
      chains_run (trace \<sigma>2) = chains_run (trace \<sigma>) @ [Queries] \<and>
      (err (dbs \<sigma>2 res) \<noteq> None \<and> \<not> RecordNotFound (dbs \<sigma>2 res) \<longrightarrow>
         FirstOrInit E a out ws \<sigma> = Some (res, \<sigma>2)) \<and>
      (err (dbs \<sigma>2 res) \<noteq> None \<and> RecordNotFound (dbs \<sigma>2 res) \<longrightarrow>
         (\<exists>sc S \<sigma>'. FirstOrInit E a out ws \<sigma> = Some (c, \<sigma>') \<and>
            trace \<sigma>' = trace \<sigma>2 @ [Initialize sc S] \<and> scValue sc = out \<and>
            seeded (clone_search a \<sigma>) ws S)) \<and>
      (err (dbs \<sigma>2 res) = None \<longrightarrow>
         (\<exists>sc \<sigma>'. FirstOrInit E a out ws \<sigma> = Some (c, \<sigma>') \<and>
            trace \<sigma>' = trace \<sigma>2 @ [UpdatedAttrsWithValues sc (assignAttrs (clone_search a \<sigma>))] \<and>
            scValue sc = out)))
    \<and> (\<exists>c \<sigma>1 res \<sigma>2. Clone a \<sigma> = (c, \<sigma>1) \<and> First E a out ws \<sigma>1 = Some (res, \<sigma>2) \<and>
      chains_run (trace \<sigma>2) = chains_run (trace \<sigma>) @ [Queries] \<and>
      (err (dbs \<sigma>2 res) \<noteq> None \<and> \<not> RecordNotFound (dbs \<sigma>2 res) \<longrightarrow>
         FirstOrCreate E a out ws \<sigma> = Some (res, \<sigma>2)) \<and>
      (err (dbs \<sigma>2 res) \<noteq> None \<and> RecordNotFound (dbs \<sigma>2 res) \<longrightarrow>
         (\<exists>sc S \<sigma>'. FirstOrCreate E a out ws \<sigma> = Some (scdb sc, \<sigma>') \<and>
            logged_only (trace \<sigma>2 @ [Initialize sc S,
                CallCallbacks Creates (creates (registries \<sigma> r)) sc S]) (trace \<sigma>') \<and>
            scValue sc = out \<and> seeded (clone_search a \<sigma>) ws S)) \<and>
      (err (dbs \<sigma>2 res) = None \<and> assignAttrs (clone_search a \<sigma>) \<noteq> [] \<longrightarrow>
         (\<exists>sc S \<sigma>'. FirstOrCreate E a out ws \<sigma> = Some (scdb sc, \<sigma>') \<and>
            logged_only (trace \<sigma>2 @ [CallCallbacks Updates (updates (registries \<sigma> r)) sc S])
              (trace \<sigma>') \<and>
            scValue sc = out \<and>
            scInstance sc = [(''gorm:update_interface'', VMap (assignAttrs (clone_search a \<sigma>)))])) \<and>
      (err (dbs \<sigma>2 res) = None \<and> assignAttrs (clone_search a \<sigma>) = [] \<longrightarrow>
         FirstOrCreate E a out ws \<sigma> = Some (c, \<sigma>2)))"
  by (rule conjI [OF FirstOrInit_cases [OF assms] FirstOrCreate_cases [OF assms]])

lemma empty_table_query:
  "err (dbs (callCallbacks empty_table Queries [n] sc \<tau>) (scdb sc)) = Some ErrRecordNotFound"
  by (simp add: callCallbacks_def run_step_def empty_table_def AddError_def SetError_def
      SetRowsAffected_def emit_def)

lemma sentinel_found: "err s = Some ErrRecordNotFound \<Longrightarrow> RecordNotFound s"
  by (simp add: RecordNotFound_def GetErrors_def)

theorem FirstOrInit_FirstOrCreate_witness:
  "allocated 0 opened \<and> callbacks (dbs opened (parent (dbs opened 0))) = Some 0 \<and>
   (\<exists>c \<sigma>'. FirstOrInit empty_table 0 (VStr ''user'') [] opened = Some (c, \<sigma>') \<and>
      chains_run (trace \<sigma>') = [Queries]) \<and>
   (\<exists>c \<sigma>'. FirstOrCreate empty_table 0 (VStr ''user'') [] opened = Some (c, \<sigma>') \<and>
      chains_run (trace \<sigma>') = [Queries, Creates])"
proof -
  note al = opened_facts(1) and reg = opened_facts(2)
  define out where "out = VStr ''user''"
  define c where "c = clone_addr opened"
  define \<sigma>1 where "\<sigma>1 = cloned 0 opened"
  define res where "res = clone_addr \<sigma>1"
  define sc where "sc = new_scope out \<sigma>1"
  define \<sigma>2 where "\<sigma>2 = callCallbacks empty_table Queries [''gorm:query''] sc
      (first_prepared c out [] \<sigma>1)"
  define \<sigma>2' where "\<sigma>2' = callCallbacks empty_table Queries [''gorm:query''] sc
      (first_prepared 0 out [] \<sigma>1)"
  have q: "queries (registries \<sigma>1 0) = [''gorm:query'']"
    by (simp add: \<sigma>1_def cloned_simps opened_def DefaultCallback_def)
  have t0: "chains_run (trace opened) = []"
    by (simp add: opened_facts)
  have cl: "Clone 0 opened = (c, \<sigma>1)"
    by (simp add: Clone_eq c_def \<sigma>1_def)
  have f: "First empty_table c out [] \<sigma>1 = Some (res, \<sigma>2)"
    unfolding res_def \<sigma>2_def sc_def q [symmetric] c_def \<sigma>1_def
    by (rule First_eq [OF allocated_clone [OF al] clone_registry(1) [OF al reg]])
  have f': "First empty_table 0 out [] \<sigma>1 = Some (res, \<sigma>2')"
    unfolding res_def \<sigma>2'_def sc_def q [symmetric] \<sigma>1_def
    by (rule First_eq [OF keeps_allocated [OF keeps_cloned al] clone_registry(2) [OF al reg]])
  have rs: "scdb sc = res"
    by (simp add: sc_def res_def new_scope_def)
  have e: "err (dbs \<sigma>2 res) = Some ErrRecordNotFound" "err (dbs \<sigma>2' res) = Some ErrRecordNotFound"
    unfolding \<sigma>2_def \<sigma>2'_def rs [symmetric] by (rule empty_table_query)+
  have n: "RecordNotFound (dbs \<sigma>2 res)" "RecordNotFound (dbs \<sigma>2' res)"
    by (rule sentinel_found, rule e)+
  note T = FirstOrInit_FirstOrCreate [OF al reg, of empty_table out "[]"]
  from T [THEN conjunct1] have "\<exists>sc S \<sigma>'. FirstOrInit empty_table 0 out [] opened = Some (c, \<sigma>') \<and>
            trace \<sigma>' = trace \<sigma>2 @ [Initialize sc S]"
    apply (elim exE conjE)
    apply (simp only: cl prod.inject)
    apply (elim conjE)
    apply hypsubst_thin
    apply (simp only: f option.inject prod.inject)
    apply (elim conjE)
    apply hypsubst_thin
    apply (simp add: e n)
    apply blast
    done
  then obtain \<sigma>' sc1 S1 where
    i1: "FirstOrInit empty_table 0 out [] opened = Some (c, \<sigma>')"
    and i2: "trace \<sigma>' = trace \<sigma>2 @ [Initialize sc1 S1]"
    by blast
  from T [THEN conjunct1] have ch: "chains_run (trace \<sigma>2) = [Queries]"
    apply (elim exE conjE)
    apply (simp only: cl prod.inject)
    apply (elim conjE)
    apply hypsubst_thin
    apply (simp only: f option.inject prod.inject)
    apply (elim conjE)
    apply hypsubst_thin
    apply (simp add: t0)
    done
  have A: "\<exists>c \<sigma>'. FirstOrInit empty_table 0 (VStr ''user'') [] opened = Some (c, \<sigma>') \<and>
      chains_run (trace \<sigma>') = [Queries]"
    using i1 i2 ch by (simp add: chains_run_append out_def)
  from T [THEN conjunct2] have "\<exists>sc S \<sigma>'. FirstOrCreate empty_table 0 out [] opened = Some (scdb sc, \<sigma>') \<and>
            logged_only (trace \<sigma>2' @ [Initialize sc S,
                CallCallbacks Creates (creates (registries opened 0)) sc S]) (trace \<sigma>')"
    apply (elim exE conjE)
    apply (simp only: cl prod.inject)
    apply (elim conjE)
    apply hypsubst_thin
    apply (simp only: f' option.inject prod.inject)
    apply (elim conjE)
    apply hypsubst_thin
    apply (simp add: e n)
    apply blast
    done
  then obtain \<sigma>'' sc2 S2 where
    c1: "FirstOrCreate empty_table 0 out [] opened = Some (scdb sc2, \<sigma>'')"
    and c2: "logged_only (trace \<sigma>2' @ [Initialize sc2 S2,
                CallCallbacks Creates (creates (registries opened 0)) sc2 S2]) (trace \<sigma>'')"
    by blast
  from T [THEN conjunct2] have ch': "chains_run (trace \<sigma>2') = [Queries]"
    apply (elim exE conjE)
    apply (simp only: cl prod.inject)
    apply (elim conjE)
    apply hypsubst_thin
    apply (simp only: f' option.inject prod.inject)
    apply (elim conjE)
    apply hypsubst_thin
    apply (simp add: t0)
    done
  from logged_only_views(1) [OF c2] ch'
  have "chains_run (trace \<sigma>'') = [Queries, Creates]"
    by (simp add: chains_run_append)
  with c1 have B: "\<exists>c \<sigma>'. FirstOrCreate empty_table 0 (VStr ''user'') [] opened = Some (c, \<sigma>') \<and>
      chains_run (trace \<sigma>') = [Queries, Creates]"
    by (simp add: out_def)
  from al reg A B show ?thesis
    by simp
qed

subsection \<open>A sentinel the receiver already carries\<close>

lemma initialized_append: "initialized (xs @ ys) = initialized xs @ initialized ys"
  by (induction xs rule: initialized.induct) simp_all

lemma prints_not_initialized: "list_all is_Print ps \<Longrightarrow> initialized ps = []"
proof (induction ps)
  case Nil
  show ?case by simp
next
  case (Cons e ps)
  then show ?case by (cases e) simp_all
qed

lemma logged_only_initialized: "logged_only tr tr' \<Longrightarrow> initialized tr' = initialized tr"
  using prints_not_initialized by (auto simp: logged_only_iff initialized_append)

lemma failing_query:
  assumes "err (dbs \<tau> (scdb sc)) = Some ErrRecordNotFound"
  shows "err (dbs (callCallbacks failing Queries [n] sc \<tau>) (scdb sc)) =
           Some (Errors [ErrRecordNotFound, Err 1])"
  using assms
  by (simp add: callCallbacks_def run_step_def failing_def AddError_def Let_def SetError_def
      SetRowsAffected_def emit_def Print_db_def Log_def GetErrors_def Errors_Add_def)

lemma first_prepared_err:
  "err (dbs (first_prepared a out ws \<sigma>) (scdb (new_scope out \<sigma>))) = err (dbs \<sigma> a)"
  by (simp add: first_prepared_simps scoped_simps new_scope_def clone_db_def Let_def)

lemma stale_facts:
  "allocated 0 stale" "callbacks (dbs stale (parent (dbs stale 0))) = Some 0"
  "registries stale 0 = DefaultCallback" "trace stale = []" "fresh stale = 1"
  "err (dbs stale 0) = Some ErrRecordNotFound"
  by (simp_all add: stale_def AddError_def SetError_def allocated_def opened_def root_def)

lemma aggregate_with_sentinel: "err s = Some (Errors [ErrRecordNotFound, e]) \<Longrightarrow> RecordNotFound s"
  by (simp add: RecordNotFound_def GetErrors_def)

text \<open>
  Claim C4 as stated returns at once whenever \<open>First\<close> fails with an error other than the
  sentinel. On a receiver that already carries the sentinel, a query chain that fails with
  \<open>Err 1\<close> leaves the aggregate of the sentinel and \<open>Err 1\<close> on the result, and
  \<open>RecordNotFound\<close> is true of it: \<open>FirstOrInit\<close> initializes the value and
  \<open>FirstOrCreate\<close> runs the create chain.
\<close>

theorem stale_sentinel_hides_failure:
  "err (dbs stale 0) = Some ErrRecordNotFound \<and>
   fst (step failing Queries ''gorm:query'' [] (new_scope (VStr ''user'') stale)) = Some (Err 1) \<and>
   err (dbs (snd (the (First failing 0 (VStr ''user'') [] stale)))
            (fst (the (First failing 0 (VStr ''user'') [] stale)))) =
     Some (Errors [ErrRecordNotFound, Err 1]) \<and>
   initialized (trace (snd (the (FirstOrInit failing 0 (VStr ''user'') [] stale)))) = [VStr ''user''] \<and>
   chains_run (trace (snd (the (FirstOrCreate failing 0 (VStr ''user'') [] stale)))) =
     [Queries, Creates]"
proof -
  note al = stale_facts(1) and reg = stale_facts(2)
  define out where "out = VStr ''user''"
  define c where "c = clone_addr stale"
  define \<sigma>1 where "\<sigma>1 = cloned 0 stale"
  define res where "res = clone_addr \<sigma>1"
  define sc where "sc = new_scope out \<sigma>1"
  define \<sigma>2 where "\<sigma>2 = callCallbacks failing Queries [''gorm:query''] sc
      (first_prepared c out [] \<sigma>1)"
  define \<sigma>2' where "\<sigma>2' = callCallbacks failing Queries [''gorm:query''] sc
      (first_prepared 0 out [] \<sigma>1)"
  have q: "queries (registries \<sigma>1 0) = [''gorm:query'']" "queries (registries stale 0) = [''gorm:query'']"
    by (simp_all add: \<sigma>1_def cloned_simps stale_facts DefaultCallback_def)
  have cl: "Clone 0 stale = (c, \<sigma>1)"
    by (simp add: Clone_eq c_def \<sigma>1_def)
  have f: "First failing c out [] \<sigma>1 = Some (res, \<sigma>2)"
    unfolding res_def \<sigma>2_def sc_def q(1) [symmetric] c_def \<sigma>1_def
    by (rule First_eq [OF allocated_clone [OF al] clone_registry(1) [OF al reg]])
  have f': "First failing 0 out [] \<sigma>1 = Some (res, \<sigma>2')"
    unfolding res_def \<sigma>2'_def sc_def q(1) [symmetric] \<sigma>1_def
    by (rule First_eq [OF keeps_allocated [OF keeps_cloned al] clone_registry(2) [OF al reg]])
  have rs: "scdb sc = res"
    by (simp add: sc_def res_def new_scope_def)
  have e1: "err (dbs \<sigma>1 c) = Some ErrRecordNotFound" "err (dbs \<sigma>1 0) = Some ErrRecordNotFound"
    by (simp_all add: \<sigma>1_def c_def cloned_simps clone_db_def Let_def clone_addr_def stale_facts)
  have e: "err (dbs \<sigma>2 res) = Some (Errors [ErrRecordNotFound, Err 1])"
    "err (dbs \<sigma>2' res) = Some (Errors [ErrRecordNotFound, Err 1])"
    unfolding \<sigma>2_def \<sigma>2'_def rs [symmetric]
    by (rule failing_query, simp add: sc_def first_prepared_err e1)+
  have n: "RecordNotFound (dbs \<sigma>2 res)" "RecordNotFound (dbs \<sigma>2' res)"
    by (rule aggregate_with_sentinel, rule e)+
  have A: "err (dbs stale 0) = Some ErrRecordNotFound"
    by (rule stale_facts)
  have B: "fst (step failing Queries ''gorm:query'' [] (new_scope (VStr ''user'') stale)) = Some (Err 1)"
    by (simp add: failing_def)
  have C: "err (dbs (snd (the (First failing 0 (VStr ''user'') [] stale)))
            (fst (the (First failing 0 (VStr ''user'') [] stale)))) =
     Some (Errors [ErrRecordNotFound, Err 1])"
    unfolding First_eq [OF al reg] q(2)
    using failing_query [of "first_prepared 0 (VStr ''user'') [] stale"
        "new_scope (VStr ''user'') stale" "''gorm:query''"]
    by (simp add: first_prepared_err stale_facts) (simp add: new_scope_def)
  have t2: "initialized (trace \<sigma>2) = []" "chains_run (trace \<sigma>2') = [Queries]"
  proof -
    have "logged_only (trace (first_prepared c out [] \<sigma>1) @
        [CallCallbacks Queries [''gorm:query''] sc
          (searches (first_prepared c out [] \<sigma>1) (scSearch sc))]) (trace \<sigma>2)"
      unfolding \<sigma>2_def by (rule callCallbacks_logged)
    from logged_only_initialized [OF this] show "initialized (trace \<sigma>2) = []"
      by (simp add: initialized_append first_prepared_simps \<sigma>1_def cloned_simps stale_facts)
    show "chains_run (trace \<sigma>2') = [Queries]"
      by (simp add: \<sigma>2'_def callCallbacks_chains first_prepared_simps \<sigma>1_def cloned_simps
          stale_facts)
  qed
  from FirstOrInit_cases [OF al reg, of failing out "[]"]
  have "\<exists>sc S \<sigma>'. FirstOrInit failing 0 out [] stale = Some (c, \<sigma>') \<and>
            trace \<sigma>' = trace \<sigma>2 @ [Initialize sc S] \<and> scValue sc = out"
    apply (elim exE conjE)
    apply (simp only: cl prod.inject)
    apply (elim conjE)
    apply hypsubst_thin
    apply (simp only: f option.inject prod.inject)
    apply (elim conjE)
    apply hypsubst_thin
    apply (simp add: e n)
    apply blast
    done
  then obtain \<sigma>' sc1 S1 where
    "FirstOrInit failing 0 out [] stale = Some (c, \<sigma>')"
    "trace \<sigma>' = trace \<sigma>2 @ [Initialize sc1 S1]" "scValue sc1 = out"
    by blast
  then have D: "initialized (trace (snd (the (FirstOrInit failing 0 (VStr ''user'') [] stale)))) =
      [VStr ''user'']"
    by (simp add: initialized_append t2 out_def [symmetric])
  from FirstOrCreate_cases [OF al reg, of failing out "[]"]
  have "\<exists>sc S \<sigma>'. FirstOrCreate failing 0 out [] stale = Some (scdb sc, \<sigma>') \<and>
            logged_only (trace \<sigma>2' @ [Initialize sc S,
                CallCallbacks Creates (creates (registries stale 0)) sc S]) (trace \<sigma>')"
    apply (elim exE conjE)
    apply (simp only: cl prod.inject)
    apply (elim conjE)
    apply hypsubst_thin
    apply (simp only: f' option.inject prod.inject)
    apply (elim conjE)
    apply hypsubst_thin
    apply (simp add: e n)
    apply blast
    done
  then obtain \<sigma>'' sc2 S2 where
    c1: "FirstOrCreate failing 0 out [] stale = Some (scdb sc2, \<sigma>'')"
    and c2: "logged_only (trace \<sigma>2' @ [Initialize sc2 S2,
                CallCallbacks Creates (creates (registries stale 0)) sc2 S2]) (trace \<sigma>'')"
    by blast
  from logged_only_views(1) [OF c2] t2
  have "chains_run (trace \<sigma>'') = [Queries, Creates]"
    by (simp add: chains_run_append)
  with c1 have E: "chains_run (trace (snd (the (FirstOrCreate failing 0 (VStr ''user'') [] stale)))) =
     [Queries, Creates]"
    by (simp add: out_def [symmetric])
  from A B C D E show ?thesis
    by simp
qed

subsection \<open>Save does not fall back after a failed update\<close>

lemma New_eq:
  "New a \<sigma> = (clone_addr \<sigma>, SetValue (clone_addr \<sigma>) VNil (SetSearch (clone_addr \<sigma>) None (cloned a \<sigma>)))"
  by (simp add: New_def Clone_eq)

lemma New_allocated:
  assumes "allocated a \<sigma>" "callbacks (dbs \<sigma> (parent (dbs \<sigma> a))) = Some r"
  shows "allocated (fst (New a \<sigma>)) (snd (New a \<sigma>))"
    and "callbacks (dbs (snd (New a \<sigma>)) (parent (dbs (snd (New a \<sigma>)) (fst (New a \<sigma>))))) = Some r"
    and "trace (snd (New a \<sigma>)) = trace \<sigma>"
  using assms
  by (simp_all add: New_eq allocated_def SetValue_def SetSearch_def cloned_simps clone_db_def
      clone_addr_def Let_def)

lemma FirstOrCreate_runs_query:
  assumes "allocated a \<sigma>" and "callbacks (dbs \<sigma> (parent (dbs \<sigma> a))) = Some r"
  shows "\<exists>x \<sigma>'. FirstOrCreate E a out ws \<sigma> = Some (x, \<sigma>') \<and>
           take (Suc (length (chains_run (trace \<sigma>)))) (chains_run (trace \<sigma>')) =
             chains_run (trace \<sigma>) @ [Queries]"
proof -
  from FirstOrCreate_cases [OF assms, of E out ws] obtain c \<sigma>1 res \<sigma>2 where
    ch: "chains_run (trace \<sigma>2) = chains_run (trace \<sigma>) @ [Queries]"
    and i: "err (dbs \<sigma>2 res) \<noteq> None \<and> \<not> RecordNotFound (dbs \<sigma>2 res) \<longrightarrow>
         FirstOrCreate E a out ws \<sigma> = Some (res, \<sigma>2)"
    and ii: "err (dbs \<sigma>2 res) \<noteq> None \<and> RecordNotFound (dbs \<sigma>2 res) \<longrightarrow>
         (\<exists>sc S \<sigma>'. FirstOrCreate E a out ws \<sigma> = Some (scdb sc, \<sigma>') \<and>
            logged_only (trace \<sigma>2 @ [Initialize sc S,
                CallCallbacks Creates (creates (registries \<sigma> r)) sc S]) (trace \<sigma>') \<and>
            scValue sc = out \<and> seeded (clone_search a \<sigma>) ws S)"
    and iii: "err (dbs \<sigma>2 res) = None \<and> assignAttrs (clone_search a \<sigma>) \<noteq> [] \<longrightarrow>
         (\<exists>sc S \<sigma>'. FirstOrCreate E a out ws \<sigma> = Some (scdb sc, \<sigma>') \<and>
            logged_only (trace \<sigma>2 @ [CallCallbacks Updates (updates (registries \<sigma> r)) sc S])
              (trace \<sigma>') \<and>
            scValue sc = out \<and>
            scInstance sc = [(''gorm:update_interface'', VMap (assignAttrs (clone_search a \<sigma>)))])"
    and iv: "err (dbs \<sigma>2 res) = None \<and> assignAttrs (clone_search a \<sigma>) = [] \<longrightarrow>
         FirstOrCreate E a out ws \<sigma> = Some (c, \<sigma>2)"
    by blast
  consider (fail) "err (dbs \<sigma>2 res) \<noteq> None" "\<not> RecordNotFound (dbs \<sigma>2 res)"
    | (missing) "err (dbs \<sigma>2 res) \<noteq> None" "RecordNotFound (dbs \<sigma>2 res)"
    | (assign) "err (dbs \<sigma>2 res) = None" "assignAttrs (clone_search a \<sigma>) \<noteq> []"
    | (found) "err (dbs \<sigma>2 res) = None" "assignAttrs (clone_search a \<sigma>) = []"
    by blast
  then show ?thesis
  proof cases
    case fail
    with i ch show ?thesis by simp
  next
    case missing
    with ii obtain sc S \<sigma>' where
      r: "FirstOrCreate E a out ws \<sigma> = Some (scdb sc, \<sigma>')"
      and l: "logged_only (trace \<sigma>2 @ [Initialize sc S,
                CallCallbacks Creates (creates (registries \<sigma> r)) sc S]) (trace \<sigma>')"
      by blast
    from logged_only_views(1) [OF l] ch r show ?thesis
      by (simp add: chains_run_append)
  next
    case assign
    with iii obtain sc S \<sigma>' where
      r: "FirstOrCreate E a out ws \<sigma> = Some (scdb sc, \<sigma>')"
      and l: "logged_only (trace \<sigma>2 @ [CallCallbacks Updates (updates (registries \<sigma> r)) sc S])
              (trace \<sigma>')"
      by blast
    from logged_only_views(1) [OF l] ch r show ?thesis
      by (simp add: chains_run_append)
  next
    case found
    with iv ch show ?thesis by simp
  qed
qed

text \<open>
  Claim C3 as stated lets zero rows affected alone trigger the fallback. With an update
  that fails and touches no row, \<open>Save\<close> returns the update's handle 4, with the error
  and a count of zero, and the update chain is the only chain that ran; the result is not
  that of \<open>FirstOrCreate\<close> through a \<open>New\<close> handle, which runs the query chain.
\<close>

theorem Save_zero_rows_with_error:
  "\<not> PrimaryKeyZero failing (VInt 5) \<and>
   fst (the (Save failing 0 (VInt 5) opened)) = 4 \<and>
   err (dbs (snd (the (Save failing 0 (VInt 5) opened))) 4) = Some (Err 1) \<and>
   rowsAffected (dbs (snd (the (Save failing 0 (VInt 5) opened))) 4) = 0 \<and>
   chains_run (trace (snd (the (Save failing 0 (VInt 5) opened)))) = [Updates] \<and>
   Save failing 0 (VInt 5) opened \<noteq>
     FirstOrCreate failing (fst (New 0 (snd (the (Save failing 0 (VInt 5) opened))))) (VInt 5) []
       (snd (New 0 (snd (the (Save failing 0 (VInt 5) opened)))))"
proof -
  let ?sc = "new_scope (VInt 5) opened"
  let ?\<sigma>2 = "callCallbacks failing Updates [''gorm:update''] ?sc (scoped 0 (VInt 5) opened)"
  have z: "\<not> PrimaryKeyZero failing (VInt 5)"
    by (simp add: failing_def)
  have sc: "scdb ?sc = 4" "scValue ?sc = VInt 5"
    by (simp_all add: new_scope_def clone_addr_def opened_facts)
  have e: "err (dbs ?\<sigma>2 4) = Some (Err 1)" "rowsAffected (dbs ?\<sigma>2 4) = 0"
    by (simp_all add: callCallbacks_def run_step_def failing_def emit_def AddError_def Let_def
        SetError_def SetRowsAffected_def Print_db_def Log_def sc scoped_simps GetErrors_def
        Errors_Add_def clone_addr_def clone_db_def opened_facts root_def)
  have pc: "parent_chain Updates 0 (scoped 0 (VInt 5) opened) = Some [''gorm:update'']"
  proof -
    have "parent_chain Updates 0 (scoped 0 (VInt 5) opened) = parent_chain Updates 0 opened"
      by (rule parent_chain_scoped [OF opened_facts(1)])
    also have "\<dots> = Some [''gorm:update'']"
      by (simp add: parent_chain_def opened_def root_def DefaultCallback_def)
    finally show ?thesis .
  qed
  have s: "Save failing 0 (VInt 5) opened = Some (4, ?\<sigma>2)"
    using z e by (simp add: Save_def NewScope_eq pc sc Let_def)
  have c: "chains_run (trace ?\<sigma>2) = [Updates]"
    by (simp add: callCallbacks_chains scoped_simps opened_facts)
  have k: "keeps opened ?\<sigma>2"
    by (rule keeps_callCallbacks [OF keeps_scoped]) (simp add: sc opened_facts)
  have al: "allocated 0 ?\<sigma>2"
    by (rule keeps_allocated [OF k opened_facts(1)])
  have rg: "callbacks (dbs ?\<sigma>2 (parent (dbs ?\<sigma>2 0))) = Some 0"
    using k by (simp add: keeps_def opened_facts root_def)
  from FirstOrCreate_runs_query [OF New_allocated(1,2) [OF al rg], of failing "VInt 5" "[]"]
  obtain x \<sigma>' where
    fc: "FirstOrCreate failing (fst (New 0 ?\<sigma>2)) (VInt 5) [] (snd (New 0 ?\<sigma>2)) = Some (x, \<sigma>')"
    and q: "take (Suc (length (chains_run (trace (snd (New 0 ?\<sigma>2)))))) (chains_run (trace \<sigma>')) =
             chains_run (trace (snd (New 0 ?\<sigma>2))) @ [Queries]"
    by blast
  have "chains_run (trace \<sigma>') \<noteq> [Updates]"
    using q by (auto simp: New_allocated(3) [OF al rg] c)
  with fc c have ne: "Some (4, ?\<sigma>2) \<noteq>
      FirstOrCreate failing (fst (New 0 ?\<sigma>2)) (VInt 5) [] (snd (New 0 ?\<sigma>2))"
    by auto
  from z s e c ne show ?thesis
    by simp
qed

section \<open>Schema operations: proofs\<close>

lemma schema_logged:
  "logged_only (trace \<tau> @ [SchemaOp op sc (searches \<tau> (scSearch sc))]) (trace (schema E op sc \<tau>))"
  using quiet_schema [of sc op \<tau> E] by (simp add: quiet_def emit_simps)

lemma schema_views:
  "chains_run (trace (schema E op sc \<tau>)) = chains_run (trace \<tau>)"
  "schema_log (trace (schema E op sc \<tau>)) =
     schema_log (trace \<tau>) @ [(op, scValue sc, Unscoped (searches \<tau> (scSearch sc)))]"
  using logged_only_views(1,2) [OF schema_logged [of \<tau> op sc E]]
  by (simp_all add: chains_run_append schema_log_append)

lemma schema_clone_search:
  "clone_search (scdb (new_scope v \<tau>)) (schema E op (new_scope v \<tau>) (scoped d v \<tau>)) =
     (clone_search d \<tau>)\<lparr>sdb := Some (clone_addr \<tau>)\<rparr>"
proof -
  let ?sc = "new_scope v \<tau>"
  let ?\<tau>1 = "scoped d v \<tau>"
  note q = quiet_schema [of ?sc op ?\<tau>1 E]
  have s: "search (dbs (schema E op ?sc ?\<tau>1) (scdb ?sc)) = Some (Suc (Suc (fresh \<tau>)))"
    using quiet_fields(2) [OF q, of "scdb ?sc"]
    by (simp add: emit_simps scoped_simps new_scope_def clone_db_search)
  have "searches (schema E op ?sc ?\<tau>1) = searches ?\<tau>1"
    using q by (simp add: quiet_def emit_simps)
  with s show ?thesis
    by (simp add: clone_search_def [of "scdb ?sc"] scoped_simps clone_addr_def)
qed

lemma scope_step_views:
  "chains_run (trace (schema E op (new_scope v \<tau>) (scoped d v \<tau>))) = chains_run (trace \<tau>)"
  "schema_log (trace (schema E op (new_scope v \<tau>) (scoped d v \<tau>))) =
     schema_log (trace \<tau>) @ [(op, v, Unscoped (clone_search d \<tau>))]"
  by (simp_all add: schema_views scope_search scoped_simps) (simp add: new_scope_def)

lemma scope_loop_log:
  "\<exists>d' \<sigma>'. scope_loop E op (Some d) ms \<sigma> = Some (d', \<sigma>') \<and>
      chains_run (trace \<sigma>') = chains_run (trace \<sigma>) \<and>
      schema_log (trace \<sigma>') =
        schema_log (trace \<sigma>) @ map (\<lambda>m. (op, m, Unscoped (clone_search d \<sigma>))) ms"
proof (induction ms arbitrary: d \<sigma>)
  case Nil
  show ?case by simp
next
  case (Cons m ms)
  let ?sc = "new_scope m \<sigma>"
  let ?\<sigma>2 = "schema E op ?sc (scoped d m \<sigma>)"
  from Cons.IH [of "scdb ?sc" ?\<sigma>2] obtain d' \<sigma>' where
    "scope_loop E op (Some (scdb ?sc)) ms ?\<sigma>2 = Some (d', \<sigma>')"
    "chains_run (trace \<sigma>') = chains_run (trace ?\<sigma>2)"
    "schema_log (trace \<sigma>') = schema_log (trace ?\<sigma>2) @
        map (\<lambda>m. (op, m, Unscoped (clone_search (scdb ?sc) ?\<sigma>2))) ms"
    by blast
  then show ?case
    by (simp add: NewScope_eq scope_step_views schema_clone_search)
qed

lemma Table_eq:
  "Table d tn \<sigma> =
     Some (Some (clone_addr \<sigma>),
           mutate_search (Suc (Suc (fresh \<sigma>))) (Search_Table tn)
             (SetValue (clone_addr \<sigma>) VNil (cloned d \<sigma>)))"
  using do_call_eq [of "CTable tn" d \<sigma>] by simp

lemma Table_clone_search:
  "Unscoped (clone_search (clone_addr \<sigma>)
      (mutate_search (Suc (Suc (fresh \<sigma>))) (Search_Table tn)
             (SetValue (clone_addr \<sigma>) VNil (cloned d \<sigma>)))) = Unscoped (clone_search d \<sigma>)"
  by (simp add: clone_search_def [of "clone_addr \<sigma>"] mutate_search_def SetValue_def cloned_simps
      clone_db_search Search_Table_def)

lemma Table_trace:
  "trace (mutate_search (Suc (Suc (fresh \<sigma>))) (Search_Table tn)
             (SetValue (clone_addr \<sigma>) VNil (cloned d \<sigma>))) = trace \<sigma>"
  by (simp add: mutate_search_def SetValue_def cloned_simps)

lemma DropTable_loop_log:
  "\<exists>d' \<sigma>'. DropTable_loop E (Some d) vs \<sigma> = Some (d', \<sigma>') \<and>
      chains_run (trace \<sigma>') = chains_run (trace \<sigma>) \<and>
      schema_log (trace \<sigma>') =
        schema_log (trace \<sigma>) @ map (\<lambda>v. (DropTableOp, v, Unscoped (clone_search d \<sigma>))) vs"
proof (induction vs arbitrary: d \<sigma>)
  case Nil
  show ?case by simp
next
  case (Cons v vs)
  have step: "\<exists>d1 \<sigma>1. (case v of VStr tn \<Rightarrow> Table d tn \<sigma> | _ \<Rightarrow> Some (Some d, \<sigma>)) = Some (Some d1, \<sigma>1) \<and>
      trace \<sigma>1 = trace \<sigma> \<and> Unscoped (clone_search d1 \<sigma>1) = Unscoped (clone_search d \<sigma>)"
    by (cases v) (simp_all add: Table_eq Table_clone_search Table_trace)
  then obtain d1 \<sigma>1 where
    t: "(case v of VStr tn \<Rightarrow> Table d tn \<sigma> | _ \<Rightarrow> Some (Some d, \<sigma>)) = Some (Some d1, \<sigma>1)"
    and tr: "trace \<sigma>1 = trace \<sigma>"
    and un: "Unscoped (clone_search d1 \<sigma>1) = Unscoped (clone_search d \<sigma>)"
    by blast
  let ?sc = "new_scope v \<sigma>1"
  let ?\<sigma>2 = "schema E DropTableOp ?sc (scoped d1 v \<sigma>1)"
  from Cons.IH [of "scdb ?sc" ?\<sigma>2] obtain d' \<sigma>' where
    "DropTable_loop E (Some (scdb ?sc)) vs ?\<sigma>2 = Some (d', \<sigma>')"
    "chains_run (trace \<sigma>') = chains_run (trace ?\<sigma>2)"
    "schema_log (trace \<sigma>') = schema_log (trace ?\<sigma>2) @
        map (\<lambda>v. (DropTableOp, v, Unscoped (clone_search (scdb ?sc) ?\<sigma>2))) vs"
    by blast
  then show ?case
    by (simp add: t NewScope_eq scope_step_views schema_clone_search tr un)
qed

lemma Unscoped_eq:
  "Unscoped_db a \<sigma> =
     Some (Some (clone_addr \<sigma>), mutate_search (Suc (Suc (fresh \<sigma>))) Search_unscoped (cloned a \<sigma>))"
  using on_clone_search_call [of CUnscoped a \<sigma>] by (simp add: Unscoped_db_def)

lemma Unscoped_facts:
  "Unscoped (clone_search (clone_addr \<sigma>)
      (mutate_search (Suc (Suc (fresh \<sigma>))) Search_unscoped (cloned a \<sigma>)))"
  "trace (mutate_search (Suc (Suc (fresh \<sigma>))) Search_unscoped (cloned a \<sigma>)) = trace \<sigma>"
  "a < fresh \<sigma> \<Longrightarrow>
     dbs (mutate_search (Suc (Suc (fresh \<sigma>))) Search_unscoped (cloned a \<sigma>)) a = dbs \<sigma> a"
proof -
  show "Unscoped (clone_search (clone_addr \<sigma>)
      (mutate_search (Suc (Suc (fresh \<sigma>))) Search_unscoped (cloned a \<sigma>)))"
    by (simp add: clone_search_def [of "clone_addr \<sigma>"] mutate_search_def cloned_simps
        clone_db_search Search_unscoped_def)
  show "trace (mutate_search (Suc (Suc (fresh \<sigma>))) Search_unscoped (cloned a \<sigma>)) = trace \<sigma>"
    by (simp add: mutate_search_def cloned_simps)
  show "a < fresh \<sigma> \<Longrightarrow>
     dbs (mutate_search (Suc (Suc (fresh \<sigma>))) Search_unscoped (cloned a \<sigma>)) a = dbs \<sigma> a"
    by (simp add: mutate_search_def cloned_simps clone_addr_def)
qed

lemma cloned_facts:
  "clone_search (clone_addr \<sigma>) (cloned a \<sigma>) = (clone_search a \<sigma>)\<lparr>sdb := Some (clone_addr \<sigma>)\<rparr>"
  "a < fresh \<sigma> \<Longrightarrow> dbs (cloned a \<sigma>) a = dbs \<sigma> a"
  by (simp_all add: clone_search_clone) (simp add: cloned_simps clone_addr_def)

lemma CreateTable_log:
  "\<exists>d \<sigma>'. CreateTable E a models \<sigma> = Some (d, \<sigma>') \<and>
      chains_run (trace \<sigma>') = chains_run (trace \<sigma>) \<and>
      schema_log (trace \<sigma>') = schema_log (trace \<sigma>) @ map (\<lambda>m. (CreateTableOp, m, True)) models"
  using scope_loop_log [of E CreateTableOp "clone_addr \<sigma>" models
      "mutate_search (Suc (Suc (fresh \<sigma>))) Search_unscoped (cloned a \<sigma>)"]
  by (simp add: CreateTable_def Unscoped_eq Unscoped_facts)

lemma AutoMigrate_log:
  "\<exists>d \<sigma>'. AutoMigrate E a vs \<sigma> = Some (d, \<sigma>') \<and>
      chains_run (trace \<sigma>') = chains_run (trace \<sigma>) \<and>
      schema_log (trace \<sigma>') = schema_log (trace \<sigma>) @ map (\<lambda>m. (AutoMigrateOp, m, True)) vs"
  using scope_loop_log [of E AutoMigrateOp "clone_addr \<sigma>" vs
      "mutate_search (Suc (Suc (fresh \<sigma>))) Search_unscoped (cloned a \<sigma>)"]
  by (simp add: AutoMigrate_def Unscoped_eq Unscoped_facts)

lemma DropTable_log:
  "\<exists>d \<sigma>'. DropTable E a vs \<sigma> = Some (d, \<sigma>') \<and>
      chains_run (trace \<sigma>') = chains_run (trace \<sigma>) \<and>
      schema_log (trace \<sigma>') =
        schema_log (trace \<sigma>) @ map (\<lambda>v. (DropTableOp, v, Unscoped (clone_search a \<sigma>))) vs"
  using DropTable_loop_log [of E "clone_addr \<sigma>" vs "cloned a \<sigma>"]
  by (simp add: DropTable_def Clone_eq cloned_facts cloned_simps)

lemma AddIndex_log:
  assumes "a < fresh \<sigma>"
  shows "\<exists>d \<sigma>'. AddIndex E a n cols \<sigma> = Some (d, \<sigma>') \<and>
      chains_run (trace \<sigma>') = chains_run (trace \<sigma>) \<and>
      schema_log (trace \<sigma>') =
        schema_log (trace \<sigma>) @ [(AddIndexOp False n cols, dbValue (dbs \<sigma> a), True)]"
    and "\<exists>d \<sigma>'. AddUniqueIndex E a n cols \<sigma> = Some (d, \<sigma>') \<and>
      chains_run (trace \<sigma>') = chains_run (trace \<sigma>) \<and>
      schema_log (trace \<sigma>') =
        schema_log (trace \<sigma>) @ [(AddIndexOp True n cols, dbValue (dbs \<sigma> a), True)]"
  using assms
  by (simp_all add: AddIndex_def AddUniqueIndex_def Unscoped_eq NewScope_eq scope_step_views
      Unscoped_facts)

lemma plain_scope_log:
  assumes "a < fresh \<sigma>"
  shows "\<exists>d \<sigma>'. RemoveIndex E a n \<sigma> = Some (d, \<sigma>') \<and>
      chains_run (trace \<sigma>') = chains_run (trace \<sigma>) \<and>
      schema_log (trace \<sigma>') =
        schema_log (trace \<sigma>) @ [(RemoveIndexOp n, dbValue (dbs \<sigma> a), Unscoped (clone_search a \<sigma>))]"
    and "\<exists>d \<sigma>'. AddForeignKey E a f dest od ou \<sigma> = Some (d, \<sigma>') \<and>
      chains_run (trace \<sigma>') = chains_run (trace \<sigma>) \<and>
      schema_log (trace \<sigma>') =
        schema_log (trace \<sigma>) @
          [(AddForeignKeyOp f dest od ou, dbValue (dbs \<sigma> a), Unscoped (clone_search a \<sigma>))]"
    and "\<exists>d \<sigma>'. RemoveForeignKey E a f dest \<sigma> = Some (d, \<sigma>') \<and>
      chains_run (trace \<sigma>') = chains_run (trace \<sigma>) \<and>
      schema_log (trace \<sigma>') =
        schema_log (trace \<sigma>) @
          [(RemoveForeignKeyOp f dest, dbValue (dbs \<sigma> a), Unscoped (clone_search a \<sigma>))]"
  using assms
  by (simp_all add: RemoveIndex_def AddForeignKey_def RemoveForeignKey_def Clone_eq NewScope_eq
      scope_step_views cloned_facts cloned_simps(7))

text \<open>
  Claim C8, as amended. No schema operation runs a callback chain, and each runs once per
  target value, in order, on a scope of its own (for the index and foreign-key operations:
  once, on the receiver's value). \<open>CreateTable\<close>, \<open>AutoMigrate\<close>, \<open>AddIndex\<close> and
  \<open>AddUniqueIndex\<close> go through \<open>Unscoped\<close>: the scope's condition set has the unscoped
  flag. \<open>DropTable\<close>, \<open>RemoveIndex\<close>, \<open>AddForeignKey\<close> and \<open>RemoveForeignKey\<close> work on a
  plain clone: the flag is the receiver's.
\<close>

theorem schema_operations_direct:
  assumes "a < fresh \<sigma>"
  shows "(\<exists>d \<sigma>'. CreateTable E a vs \<sigma> = Some (d, \<sigma>') \<and>
            chains_run (trace \<sigma>') = chains_run (trace \<sigma>) \<and>
            schema_log (trace \<sigma>') =
              schema_log (trace \<sigma>) @ map (\<lambda>m. (CreateTableOp, m, True)) vs)
       \<and> (\<exists>d \<sigma>'. AutoMigrate E a vs \<sigma> = Some (d, \<sigma>') \<and>
            chains_run (trace \<sigma>') = chains_run (trace \<sigma>) \<and>
            schema_log (trace \<sigma>') =
              schema_log (trace \<sigma>) @ map (\<lambda>m. (AutoMigrateOp, m, True)) vs)
       \<and> (\<exists>d \<sigma>'. AddIndex E a n cols \<sigma> = Some (d, \<sigma>') \<and>
            chains_run (trace \<sigma>') = chains_run (trace \<sigma>) \<and>
            schema_log (trace \<sigma>') =
              schema_log (trace \<sigma>) @ [(AddIndexOp False n cols, dbValue (dbs \<sigma> a), True)])
       \<and> (\<exists>d \<sigma>'. AddUniqueIndex E a n cols \<sigma> = Some (d, \<sigma>') \<and>
            chains_run (trace \<sigma>') = chains_run (trace \<sigma>) \<and>
            schema_log (trace \<sigma>') =
              schema_log (trace \<sigma>) @ [(AddIndexOp True n cols, dbValue (dbs \<sigma> a), True)])
       \<and> (\<exists>d \<sigma>'. DropTable E a vs \<sigma> = Some (d, \<sigma>') \<and>
            chains_run (trace \<sigma>') = chains_run (trace \<sigma>) \<and>
            schema_log (trace \<sigma>') =
              schema_log (trace \<sigma>) @
                map (\<lambda>v. (DropTableOp, v, Unscoped (clone_search a \<sigma>))) vs)
       \<and> (\<exists>d \<sigma>'. RemoveIndex E a n \<sigma> = Some (d, \<sigma>') \<and>
            chains_run (trace \<sigma>') = chains_run (trace \<sigma>) \<and>
            schema_log (trace \<sigma>') =
              schema_log (trace \<sigma>) @
                [(RemoveIndexOp n, dbValue (dbs \<sigma> a), Unscoped (clone_search a \<sigma>))])
       \<and> (\<exists>d \<sigma>'. AddForeignKey E a f dest od ou \<sigma> = Some (d, \<sigma>') \<and>
            chains_run (trace \<sigma>') = chains_run (trace \<sigma>) \<and>
            schema_log (trace \<sigma>') =
              schema_log (trace \<sigma>) @
                [(AddForeignKeyOp f dest od ou, dbValue (dbs \<sigma> a), Unscoped (clone_search a \<sigma>))])
       \<and> (\<exists>d \<sigma>'. RemoveForeignKey E a f dest \<sigma> = Some (d, \<sigma>') \<and>
            chains_run (trace \<sigma>') = chains_run (trace \<sigma>) \<and>
            schema_log (trace \<sigma>') =
              schema_log (trace \<sigma>) @
                [(RemoveForeignKeyOp f dest, dbValue (dbs \<sigma> a), Unscoped (clone_search a \<sigma>))])"
  by (intro conjI CreateTable_log AutoMigrate_log AddIndex_log [OF assms] DropTable_log
      plain_scope_log [OF assms])

theorem schema_operations_direct_witness:
  "0 < fresh opened \<and>
   (\<exists>d \<sigma>'. CreateTable empty_table 0 [VStr ''users'', VStr ''orders''] opened = Some (d, \<sigma>') \<and>
      chains_run (trace \<sigma>') = [] \<and>
      schema_log (trace \<sigma>') =
        [(CreateTableOp, VStr ''users'', True), (CreateTableOp, VStr ''orders'', True)])"
proof -
  have h: "0 < fresh opened"
    by (simp add: opened_facts)
  from schema_operations_direct [OF h, of empty_table "[VStr ''users'', VStr ''orders'']",
      THEN conjunct1] h
  show ?thesis
    by (simp add: opened_facts(4))
qed

text \<open>
  Claim C8 as stated has every schema operation forced through \<open>Unscoped\<close>. \<open>DropTable\<close> on
  the root handle runs on a scope whose condition set is not unscoped.
\<close>

theorem DropTable_scope_not_unscoped:
  "DropTable empty_table 0 [VStr ''users''] opened \<noteq> None \<and>
   schema_log (trace (snd (the (DropTable empty_table 0 [VStr ''users''] opened)))) =
     [(DropTableOp, VStr ''users'', False)]"
proof -
  have u: "Unscoped (clone_search 0 opened) = False"
    by (simp add: clone_search_def opened_def root_def emptySearch_def)
  from DropTable_log [of empty_table 0 "[VStr ''users'']" opened] obtain d \<sigma>' where
    "DropTable empty_table 0 [VStr ''users''] opened = Some (d, \<sigma>')"
    "schema_log (trace \<sigma>') = schema_log (trace opened) @
        map (\<lambda>v. (DropTableOp, v, Unscoped (clone_search 0 opened))) [VStr ''users'']"
    by blast
  then show ?thesis
    by (simp add: u opened_facts(4))
qed

end
